theory Spec2Isabelle
  imports Main "HOL-Library.Word"
begin

unbundle bit_operations_syntax

section \<open>The per-device state machine of device.cpp\<close>

text \<open>
  A shallow embedding of \<^verbatim>\<open>src/device.cpp\<close>: the \<^verbatim>\<open>Device\<close> object with its three handler
  slots, the thirteen state handlers, \<^verbatim>\<open>setState\<close>, \<^verbatim>\<open>handleEvent\<close>, \<^verbatim>\<open>timerEvent\<close>,
  \<^verbatim>\<open>reachable\<close> and the registry functions. Handlers are C function pointers in the source;
  here a slot holds a tag of type \<open>DeviceStateHandler\<close> and calling through the pointer is
  the function \<open>callHandler\<close>. Everything outside the file (the core node registry, the APS
  controller, the resource store, the DDF lookup, the clocks) is read from an environment
  record that is passed to every call. Logging (\<^verbatim>\<open>DBG_Printf\<close>) has no effect on the state
  and is left out; \<^verbatim>\<open>Q_ASSERT\<close> is taken as in a release build, where it compiles to nothing.
\<close>

subsection \<open>Events\<close>

text \<open>
  \<^verbatim>\<open>Event::what()\<close> is one of the global suffix constants, compared by pointer in the source.
\<close>

datatype Suffix =
    REventStateEnter | REventStateLeave | REventStateTimeout
  | REventPoll | REventAwake | REventApsConfirm
  | REventNodeDescriptor | REventActiveEndpoints | REventSimpleDescriptor
  | REventBindingTable | REventBindingTick
  | REventDDFInitRequest | REventDDFInitResponse | REventDDFReload
  | RAttrLastSeen | RConfigReachable | RStateReachable | RStateLastUpdated
  | RAttrManufacturerName | RAttrModelId | RAttrUniqueId | RAttrId
  | RAttrExtAddress | RAttrNwkAddress | RAttrSleeper
  | OtherSuffix string

type_synonym DeviceKey = "64 word"

record Event =
  resource :: "string option"  \<comment> \<open>\<^verbatim>\<open>const char *\<close>, may be null\<close>
  what :: Suffix
  ev_id :: string
  num :: int
  ev_deviceKey :: DeviceKey

definition RDevices :: string where
  "RDevices = ''/devices''"

text \<open>The constructor \<^verbatim>\<open>Event(resource, what, num, deviceKey)\<close>.\<close>

definition mkEvent :: "string \<Rightarrow> Suffix \<Rightarrow> int \<Rightarrow> DeviceKey \<Rightarrow> Event" where
  "mkEvent r w n k = \<lparr>resource = Some r, what = w, ev_id = [], num = n, ev_deviceKey = k\<rparr>"

datatype DEV_StateLevel = StateLevel0 | StateLevel1 | StateLevel2

definition STATE_LEVEL_BINDING :: DEV_StateLevel where
  "STATE_LEVEL_BINDING = StateLevel1"

definition STATE_LEVEL_POLL :: DEV_StateLevel where
  "STATE_LEVEL_POLL = StateLevel2"

fun levelNum :: "DEV_StateLevel \<Rightarrow> int" where
  "levelNum StateLevel0 = 0"
| "levelNum StateLevel1 = 1"
| "levelNum StateLevel2 = 2"

text \<open>Indexing \<^verbatim>\<open>d->state[event.num()]\<close>: an index outside 0..2 is outside the array.\<close>

definition levelOfNum :: "int \<Rightarrow> DEV_StateLevel option" where
  "levelOfNum n =
     (if n = 0 then Some StateLevel0
      else if n = 1 then Some StateLevel1
      else if n = 2 then Some StateLevel2
      else None)"

subsection \<open>The world outside device.cpp\<close>

datatype QVariant = QNull | QString string | QMap "(string \<times> string) list"

definition isNullV :: "QVariant \<Rightarrow> bool" where
  "isNullV v = (v = QNull)"

definition toMap :: "QVariant \<Rightarrow> (string \<times> string) list" where
  "toMap v = (case v of QMap m \<Rightarrow> m | _ \<Rightarrow> [])"

record NodeDescriptor =
  isNull :: bool
  receiverOnWhenIdle :: bool

record SimpleDescriptor =
  endpoint :: "8 word"
  deviceId :: "16 word"
  inClusters :: "16 word list"

record Binding =
  srcAddress :: "64 word"
  clusterId :: "16 word"

record Node =
  address_nwk :: "16 word"
  address_ext :: "64 word"
  nodeDescriptor :: NodeDescriptor
  endpoints :: "8 word list"
  simpleDescriptors :: "SimpleDescriptor list"
  bindingTable :: "Binding list"

text \<open>
  \<^verbatim>\<open>Node::copySimpleDescriptor(ep, &sd)\<close> of the deCONZ library returns 0 when the node holds a
  descriptor for the endpoint and copies it; here the copy is the result.
\<close>

definition copySimpleDescriptor :: "Node \<Rightarrow> 8 word \<Rightarrow> SimpleDescriptor option" where
  "copySimpleDescriptor n ep = find (\<lambda>sd. endpoint sd = ep) (simpleDescriptors n)"

record ResourceItem =
  suffix :: Suffix
  lastSetValid :: bool
  lastSet :: int  \<comment> \<open>seconds\<close>
  refreshInterval :: int
  toVariant :: QVariant

record Resource =
  prefix :: string
  ritems :: "ResourceItem list"
  stateChanges :: nat  \<comment> \<open>number of pending state changes\<close>

definition ritem :: "Resource \<Rightarrow> Suffix \<Rightarrow> ResourceItem option" where
  "ritem r s = find (\<lambda>i. suffix i = s) (ritems r)"

text \<open>
  \<^verbatim>\<open>ZDP_Result\<close>, \<^verbatim>\<open>ZCL_Result\<close> and \<^verbatim>\<open>DA_ReadResult\<close> carry the same three fields; the value
  initialised with \<^verbatim>\<open>{ }\<close> is not enqueued and has request id 0.
\<close>

record RequestResult =
  isEnqueued :: bool
  apsReqId :: "8 word"
  sequenceNumber :: "8 word"

definition emptyResult :: RequestResult where
  "emptyResult = \<lparr>isEnqueued = False, apsReqId = 0, sequenceNumber = 0\<rparr>"

record ZCL_Param =
  valid :: bool
  zp_endpoint :: "8 word"
  zp_clusterId :: "16 word"
  attributes :: "16 word list"

type_synonym ResourcePtr = nat
type_synonym NodePtr = nat

text \<open>
  A read function as returned by \<^verbatim>\<open>DA_GetReadFunction\<close>: called with the resource, the item
  (resource and index), the read parameters and the result structure it fills in.
\<close>

type_synonym ReadFunction =
  "ResourcePtr \<Rightarrow> (ResourcePtr \<times> nat) \<Rightarrow> QVariant \<Rightarrow> RequestResult \<Rightarrow> RequestResult"

record Env =
  monotonicMs :: int  \<comment> \<open>the clock of \<^verbatim>\<open>QElapsedTimer\<close>\<close>
  currentSecs :: int  \<comment> \<open>\<^verbatim>\<open>QDateTime::currentDateTime()\<close>\<close>
  DEV_GetCoreNode :: "DeviceKey \<Rightarrow> NodePtr option"
  nodeAt :: "NodePtr \<Rightarrow> Node"
  DEV_GetResource :: "string \<Rightarrow> string \<Rightarrow> ResourcePtr option"
  resourceAt :: "ResourcePtr \<Rightarrow> Resource"
  DDF_GetItem :: "ResourceItem \<Rightarrow> QVariant"  \<comment> \<open>the \<^verbatim>\<open>readParameters\<close> of the DDF item\<close>
  DA_GetReadFunction :: "QVariant \<Rightarrow> ReadFunction option"
  ZDP_NodeDescriptorReq :: "16 word \<Rightarrow> RequestResult"
  ZDP_ActiveEndpointsReq :: "16 word \<Rightarrow> RequestResult"
  ZDP_SimpleDescriptorReq :: "16 word \<Rightarrow> 8 word \<Rightarrow> RequestResult"
  ZCL_ReadAttributes :: "ZCL_Param \<Rightarrow> 64 word \<Rightarrow> 16 word \<Rightarrow> RequestResult"
  EventApsConfirmId :: "Event \<Rightarrow> 8 word"
  EventApsConfirmStatus :: "Event \<Rightarrow> 8 word"
  ZdpSuccess :: int
  ZdpNotSupported :: int
  setValueString :: "QVariant \<Rightarrow> string option"
    \<comment> \<open>\<^verbatim>\<open>ResourceItem::setValue\<close> on a string item: the stored string, or None when it returns false\<close>
  appArgumentNumeric :: "string \<Rightarrow> int \<Rightarrow> int"
  generateUniqueId :: "DeviceKey \<Rightarrow> string"

definition ApsSuccessStatus :: "8 word" where
  "ApsSuccessStatus = 0"

subsection \<open>The device\<close>

datatype DeviceStateHandler =
    InitState | IdleState | NodeDescriptorState | ActiveEndpointsState
  | SimpleDescriptorState | BasicClusterState | GetDeviceDescriptionState
  | BindingState | BindingTableVerifyState
  | PollIdleState | PollNextState | PollBusyState
  | DeadState

definition MinMacPollRxOn :: int where
  "MinMacPollRxOn = 8000"

definition MaxPollItemRetries :: "64 word" where
  "MaxPollItemRetries = 3"

record PollItem =
  retry :: "64 word"  \<comment> \<open>\<^verbatim>\<open>size_t\<close>\<close>
  pi_resource :: ResourcePtr
  pi_item :: "ResourcePtr \<times> nat"
  readParameters :: QVariant

definition newPollItem :: "ResourcePtr \<Rightarrow> (ResourcePtr \<times> nat) \<Rightarrow> QVariant \<Rightarrow> PollItem" where
  "newPollItem r i p = \<lparr>retry = 0, pi_resource = r, pi_item = i, readParameters = p\<rparr>"

text \<open>A \<^verbatim>\<open>QElapsedTimer\<close> is the time it was started at, or invalid.\<close>

type_synonym QElapsedTimer = "int option"

record BindingContext =
  bindingVerify :: QElapsedTimer
  bindingIter :: nat
  mgmtBindSupported :: bool

record StringItem =
  str_lastSetValid :: bool
  str_value :: string

text \<open>
  What the device does to its collaborators, in the order it does it: the events it emits
  with \<^verbatim>\<open>eventNotify\<close> and the requests it hands to the APS controller.
\<close>

datatype Effect =
    EventNotify Event
  | NodeDescriptorReq "16 word"
  | ActiveEndpointsReq "16 word"
  | SimpleDescriptorReq "16 word" "8 word"
  | ReadAttributes ZCL_Param "64 word" "16 word"
  | ReadCall ResourcePtr "ResourcePtr \<times> nat" QVariant
  | StateChangeTick ResourcePtr bool
  | SetParentResource ResourcePtr

text \<open>
  \<^verbatim>\<open>DevicePrivate\<close> together with the items the \<^verbatim>\<open>Device\<close> constructor adds to itself.
\<close>

record Device =
  subDevices :: "(string \<times> string) list"  \<comment> \<open>uniqueid, prefix\<close>
  node :: "NodePtr option"
  deviceKey :: DeviceKey
  state :: "DEV_StateLevel \<Rightarrow> DeviceStateHandler option"
  timer :: "DEV_StateLevel \<Rightarrow> int option"  \<comment> \<open>the interval while the timer is active\<close>
  awake :: QElapsedTimer
  binding :: BindingContext
  pollItems :: "PollItem list"
  managed :: bool
  zdpResult :: RequestResult
  readResult :: RequestResult
  itemStateReachable :: bool
  itemAttrSleeper :: bool
  itemAttrExtAddress :: "64 word"
  itemAttrNwkAddress :: "16 word"
  itemAttrUniqueId :: string
  itemAttrManufacturerName :: StringItem
  itemAttrModelId :: StringItem
  effects :: "Effect list"

text \<open>
  A call through a null pointer, a read through a null pointer, \<^verbatim>\<open>pop_back\<close> on an empty
  vector and an index outside the handler array end the run; so does a call nesting deeper
  than the bound given to \<open>callHandler\<close>.
\<close>

datatype Crash = NullHandler | NullPointer | PopEmpty | LevelOutOfRange | CallDepth

type_synonym 'a result = "Crash + 'a"

definition andThen :: "'a result \<Rightarrow> ('a \<Rightarrow> 'b result) \<Rightarrow> 'b result" where
  "andThen r f = (case r of Inl e \<Rightarrow> Inl e | Inr x \<Rightarrow> f x)"

type_synonym HandlerCall = "DeviceStateHandler \<Rightarrow> Event \<Rightarrow> Device \<Rightarrow> Device result"

definition eventNotify :: "Event \<Rightarrow> Device \<Rightarrow> Device" where
  "eventNotify e d = d\<lparr>effects := effects d @ [EventNotify e]\<rparr>"

definition DEV_EnqueueEvent :: "Suffix \<Rightarrow> Device \<Rightarrow> Device" where
  "DEV_EnqueueEvent event d = eventNotify (mkEvent RDevices event 0 (deviceKey d)) d"

definition startStateTimer :: "int \<Rightarrow> DEV_StateLevel \<Rightarrow> Device \<Rightarrow> Device" where
  "startStateTimer IntervalMs level d = d\<lparr>timer := (timer d)(level := Some IntervalMs)\<rparr>"

definition stopStateTimer :: "DEV_StateLevel \<Rightarrow> Device \<Rightarrow> Device" where
  "stopStateTimer level d =
     (if timer d level \<noteq> None then d\<lparr>timer := (timer d)(level := None)\<rparr> else d)"

text \<open>
  \<^verbatim>\<open>DevicePrivate::setState\<close>. The outgoing handler is called at once with
  \<^verbatim>\<open>REventStateLeave\<close>; the \<^verbatim>\<open>REventStateEnter\<close> of the incoming one is only emitted.
\<close>

definition setState :: "HandlerCall \<Rightarrow> DeviceStateHandler option \<Rightarrow> DEV_StateLevel \<Rightarrow> Device \<Rightarrow> Device result" where
  "setState call newState level d =
     (if state d level \<noteq> newState then
        andThen
          (case state d level of
             Some h \<Rightarrow> call h (mkEvent RDevices REventStateLeave (levelNum level) (deviceKey d)) d
           | None \<Rightarrow> Inr d)
          (\<lambda>d1.
             let d2 = d1\<lparr>state := (state d1)(level := newState)\<rparr>
             in Inr (if state d2 level \<noteq> None
                     then eventNotify (mkEvent RDevices REventStateEnter (levelNum level) (deviceKey d2)) d2
                     else d2))
      else Inr d)"

text \<open>\<^verbatim>\<open>Device::handleEvent\<close>.\<close>

definition handleEvent :: "HandlerCall \<Rightarrow> Env \<Rightarrow> Event \<Rightarrow> DEV_StateLevel \<Rightarrow> Device \<Rightarrow> Device result" where
  "handleEvent call env event level d =
     (if what event = REventStateEnter \<or> what event = REventStateLeave then
        (case levelOfNum (num event) of
           None \<Rightarrow> Inl LevelOutOfRange
         | Some l \<Rightarrow> (case state d l of None \<Rightarrow> Inl NullHandler | Some h \<Rightarrow> call h event d))
      else
        (case state d level of
           Some h \<Rightarrow>
             call h event
               (if what event = REventAwake \<and> level = StateLevel0
                then d\<lparr>awake := Some (monotonicMs env)\<rparr> else d)
         | None \<Rightarrow> Inr d))"

subsection \<open>Reachability\<close>

definition lastAwakeMs :: "Env \<Rightarrow> Device \<Rightarrow> int" where
  "lastAwakeMs env d = (case awake d of Some t \<Rightarrow> monotonicMs env - t | None \<Rightarrow> 8640000)"

definition reachable :: "Env \<Rightarrow> Device \<Rightarrow> bool" where
  "reachable env d =
     (if lastAwakeMs env d < MinMacPollRxOn then True
      else if (case node d of
                 None \<Rightarrow> False
               | Some p \<Rightarrow> \<not> isNull (nodeDescriptor (nodeAt env p))
                           \<and> receiverOnWhenIdle (nodeDescriptor (nodeAt env p)))
      then itemStateReachable d
      else if \<not> itemAttrSleeper d then itemStateReachable d
      else False)"

subsection \<open>Sub-devices\<close>

text \<open>\<^verbatim>\<open>Device::subDevices()\<close>: the resources that can still be resolved, in order.\<close>

definition Device_subDevices :: "Env \<Rightarrow> Device \<Rightarrow> ResourcePtr list" where
  "Device_subDevices env d =
     List.map_filter (\<lambda>sub. DEV_GetResource env (snd sub) (fst sub)) (subDevices d)"

definition toStringV :: "QVariant \<Rightarrow> string" where
  "toStringV v = (case v of QString s \<Rightarrow> s | _ \<Rightarrow> [])"

text \<open>
  The loop of \<^verbatim>\<open>DEV_GetSubDevice\<close>. \<^verbatim>\<open>sub->item(...)->toString()\<close> reads through the pointer
  that \<^verbatim>\<open>item\<close> returns, which is null when the resource has no such item.
\<close>

fun getSubDeviceLoop :: "Env \<Rightarrow> string option \<Rightarrow> string \<Rightarrow> ResourcePtr list \<Rightarrow> ResourcePtr option result" where
  "getSubDeviceLoop env pfx identifier [] = Inr None"
| "getSubDeviceLoop env pfx identifier (sub # subs) =
     (if pfx \<noteq> None \<and> Some (prefix (resourceAt env sub)) \<noteq> pfx
      then getSubDeviceLoop env pfx identifier subs
      else (case ritem (resourceAt env sub) RAttrUniqueId of
              None \<Rightarrow> Inl NullPointer
            | Some u \<Rightarrow>
                if toStringV (toVariant u) = identifier then Inr (Some sub)
                else (case ritem (resourceAt env sub) RAttrId of
                        None \<Rightarrow> Inl NullPointer
                      | Some i \<Rightarrow>
                          if toStringV (toVariant i) = identifier then Inr (Some sub)
                          else getSubDeviceLoop env pfx identifier subs)))"

definition DEV_GetSubDevice :: "Env \<Rightarrow> Device \<Rightarrow> string option \<Rightarrow> string \<Rightarrow> ResourcePtr option result" where
  "DEV_GetSubDevice env d pfx identifier =
     getSubDeviceLoop env pfx identifier (Device_subDevices env d)"

text \<open>
  \<^verbatim>\<open>DEV_CheckItemChanges\<close>. The state changes belong to the resource layer; what the device
  does is to run them, once per sub-device that has any, with or without a matching item.
\<close>

definition tickStateChanges :: "Env \<Rightarrow> Event \<Rightarrow> ResourcePtr list \<Rightarrow> Effect list" where
  "tickStateChanges env event subs =
     map (\<lambda>sub. StateChangeTick sub (ritem (resourceAt env sub) (what event) \<noteq> None))
       (filter (\<lambda>sub. stateChanges (resourceAt env sub) \<noteq> 0) subs)"

definition DEV_CheckItemChanges :: "Env \<Rightarrow> Event \<Rightarrow> Device \<Rightarrow> Device result" where
  "DEV_CheckItemChanges env event d =
     andThen
       (if what event = REventAwake \<or> what event = REventPoll
        then Inr (Device_subDevices env d)
        else andThen (DEV_GetSubDevice env d (resource event) (ev_id event))
               (\<lambda>sub. Inr (case sub of Some s \<Rightarrow> [s] | None \<Rightarrow> [])))
       (\<lambda>subs. Inr (d\<lparr>effects := effects d @ tickStateChanges env event subs\<rparr>))"

subsection \<open>Top level handlers\<close>

definition isCoordinator :: "Env \<Rightarrow> Device \<Rightarrow> bool" where
  "isCoordinator env d =
     (case node d of None \<Rightarrow> False | Some p \<Rightarrow> address_nwk (nodeAt env p) = 0x0000)"

definition DEV_InitStateHandler :: "HandlerCall \<Rightarrow> Env \<Rightarrow> Event \<Rightarrow> Device \<Rightarrow> Device result" where
  "DEV_InitStateHandler call env event d =
     (let d1 = (if what event = REventStateEnter then d\<lparr>zdpResult := emptyResult\<rparr> else d);
          oui = (what event = REventStateEnter
                 \<and> (ev_deviceKey event AND 0x00212E0000000000) = 0x00212E0000000000);
          d2 = (if oui then d1\<lparr>node := DEV_GetCoreNode env (deviceKey d1)\<rparr> else d1)
      in if oui \<and> isCoordinator env d2 then setState call (Some DeadState) StateLevel0 d2
         else if what event = REventPoll \<or> what event = REventAwake
                 \<or> what event = RConfigReachable \<or> what event = RStateReachable
                 \<or> what event = REventStateTimeout \<or> what event = RStateLastUpdated
         then
           (let d3 = (if node d2 = None then d2\<lparr>node := DEV_GetCoreNode env (deviceKey d2)\<rparr> else d2)
            in case node d3 of
                 Some p \<Rightarrow>
                   (let d4 = d3\<lparr>itemAttrExtAddress := address_ext (nodeAt env p),
                                 itemAttrNwkAddress := address_nwk (nodeAt env p)\<rparr>
                    in if \<not> isNull (nodeDescriptor (nodeAt env p)) \<or> reachable env d4
                       then setState call (Some NodeDescriptorState) StateLevel0 d4
                       else Inr d4)
               | None \<Rightarrow>
                   if (deviceKey d3 AND 0xffffffff00000000) = 0
                   then setState call (Some DeadState) StateLevel0 d3
                   else Inr d3)
         else Inr d2)"

text \<open>
  The three ZDP states differ in what they look for on the node and in the request they
  send. A request is recorded when the function is called, enqueued or not.
\<close>

definition zdpRequest :: "Effect \<Rightarrow> RequestResult \<Rightarrow> Device \<Rightarrow> Device" where
  "zdpRequest req res d = d\<lparr>zdpResult := res, effects := effects d @ [req]\<rparr>"

definition zdpConfirmFailed :: "Env \<Rightarrow> Event \<Rightarrow> Device \<Rightarrow> bool" where
  "zdpConfirmFailed env event d =
     (apsReqId (zdpResult d) = EventApsConfirmId env event
      \<and> EventApsConfirmStatus env event \<noteq> ApsSuccessStatus)"

definition DEV_NodeDescriptorStateHandler :: "HandlerCall \<Rightarrow> Env \<Rightarrow> Event \<Rightarrow> Device \<Rightarrow> Device result" where
  "DEV_NodeDescriptorStateHandler call env event d =
     (if what event = REventStateEnter then
        (case node d of
           None \<Rightarrow> Inl NullPointer
         | Some p \<Rightarrow>
             if \<not> isNull (nodeDescriptor (nodeAt env p))
             then setState call (Some ActiveEndpointsState) StateLevel0 d
             else if \<not> reachable env d
             then setState call (Some InitState) StateLevel0 d
             else
               (let d1 = zdpRequest (NodeDescriptorReq (itemAttrNwkAddress d))
                           (ZDP_NodeDescriptorReq env (itemAttrNwkAddress d)) d
                in if isEnqueued (zdpResult d1)
                   then Inr (startStateTimer MinMacPollRxOn StateLevel0 d1)
                   else setState call (Some InitState) StateLevel0 d1))
      else if what event = REventApsConfirm then
        (if zdpConfirmFailed env event d
         then setState call (Some InitState) StateLevel0 d
         else Inr d)
      else if what event = REventNodeDescriptor then
        andThen (setState call (Some InitState) StateLevel0 (stopStateTimer StateLevel0 d))
          (\<lambda>d1. Inr (DEV_EnqueueEvent REventAwake d1))
      else if what event = REventStateTimeout then
        setState call (Some InitState) StateLevel0 d
      else Inr d)"

definition DEV_ActiveEndpointsStateHandler :: "HandlerCall \<Rightarrow> Env \<Rightarrow> Event \<Rightarrow> Device \<Rightarrow> Device result" where
  "DEV_ActiveEndpointsStateHandler call env event d =
     (if what event = REventStateEnter then
        (case node d of
           None \<Rightarrow> Inl NullPointer
         | Some p \<Rightarrow>
             if endpoints (nodeAt env p) \<noteq> []
             then setState call (Some SimpleDescriptorState) StateLevel0 d
             else if \<not> reachable env d
             then setState call (Some InitState) StateLevel0 d
             else
               (let d1 = zdpRequest (ActiveEndpointsReq (itemAttrNwkAddress d))
                           (ZDP_ActiveEndpointsReq env (itemAttrNwkAddress d)) d
                in if isEnqueued (zdpResult d1)
                   then Inr (startStateTimer MinMacPollRxOn StateLevel0 d1)
                   else setState call (Some InitState) StateLevel0 d1))
      else if what event = REventApsConfirm then
        (if zdpConfirmFailed env event d
         then setState call (Some InitState) StateLevel0 d
         else Inr d)
      else if what event = REventActiveEndpoints then
        andThen (setState call (Some InitState) StateLevel0 (stopStateTimer StateLevel0 d))
          (\<lambda>d1. Inr (DEV_EnqueueEvent REventAwake d1))
      else if what event = REventStateTimeout then
        setState call (Some InitState) StateLevel0 d
      else Inr d)"

text \<open>The first endpoint without a usable simple descriptor, 0 when there is none.\<close>

fun needFetchEp :: "Node \<Rightarrow> 8 word list \<Rightarrow> 8 word" where
  "needFetchEp n [] = 0x00"
| "needFetchEp n (ep # eps) =
     (case copySimpleDescriptor n ep of
        None \<Rightarrow> ep
      | Some sd \<Rightarrow> if deviceId sd = 0xffff then ep else needFetchEp n eps)"

definition DEV_SimpleDescriptorStateHandler :: "HandlerCall \<Rightarrow> Env \<Rightarrow> Event \<Rightarrow> Device \<Rightarrow> Device result" where
  "DEV_SimpleDescriptorStateHandler call env event d =
     (if what event = REventStateEnter then
        (case node d of
           None \<Rightarrow> Inl NullPointer
         | Some p \<Rightarrow>
             (let ep = needFetchEp (nodeAt env p) (endpoints (nodeAt env p))
              in if ep = 0x00
                 then setState call (Some BasicClusterState) StateLevel0 d
                 else if \<not> reachable env d
                 then setState call (Some InitState) StateLevel0 d
                 else
                   (let d1 = zdpRequest (SimpleDescriptorReq (itemAttrNwkAddress d) ep)
                               (ZDP_SimpleDescriptorReq env (itemAttrNwkAddress d) ep) d
                    in if isEnqueued (zdpResult d1)
                       then Inr (startStateTimer MinMacPollRxOn StateLevel0 d1)
                       else setState call (Some InitState) StateLevel0 d1)))
      else if what event = REventApsConfirm then
        (if zdpConfirmFailed env event d
         then setState call (Some InitState) StateLevel0 d
         else Inr d)
      else if what event = REventSimpleDescriptor then
        andThen (setState call (Some InitState) StateLevel0 (stopStateTimer StateLevel0 d))
          (\<lambda>d1. Inr (DEV_EnqueueEvent REventAwake d1))
      else if what event = REventStateTimeout then
        setState call (Some InitState) StateLevel0 d
      else Inr d)"

text \<open>
  \<^verbatim>\<open>DEV_GetSimpleDescriptorForServerCluster\<close>: the first simple descriptor that lists the
  cluster among its input clusters.
\<close>

definition DEV_GetSimpleDescriptorForServerCluster :: "Node \<Rightarrow> 16 word \<Rightarrow> SimpleDescriptor option" where
  "DEV_GetSimpleDescriptorForServerCluster n cl =
     find (\<lambda>sd. find (\<lambda>c. c = cl) (inClusters sd) \<noteq> None) (simpleDescriptors n)"

text \<open>The string items of the device itself, by suffix; null for any other suffix.\<close>

definition deviceStringItem :: "Device \<Rightarrow> Suffix \<Rightarrow> StringItem option" where
  "deviceStringItem d s =
     (if s = RAttrManufacturerName then Some (itemAttrManufacturerName d)
      else if s = RAttrModelId then Some (itemAttrModelId d)
      else None)"

definition setDeviceStringItem :: "Suffix \<Rightarrow> string \<Rightarrow> Device \<Rightarrow> Device" where
  "setDeviceStringItem s v d =
     (if s = RAttrManufacturerName
      then d\<lparr>itemAttrManufacturerName := \<lparr>str_lastSetValid = True, str_value = v\<rparr>\<rparr>
      else if s = RAttrModelId
      then d\<lparr>itemAttrModelId := \<lparr>str_lastSetValid = True, str_value = v\<rparr>\<rparr>
      else d)"

text \<open>The loop of \<^verbatim>\<open>DEV_FillItemFromSubdevices\<close>: the first value that could be copied.\<close>

fun fillFromSubdevices :: "Env \<Rightarrow> Suffix \<Rightarrow> ResourcePtr list \<Rightarrow> string option" where
  "fillFromSubdevices env itemSuffix [] = None"
| "fillFromSubdevices env itemSuffix (rsub # rest) =
     (case ritem (resourceAt env rsub) itemSuffix of
        None \<Rightarrow> fillFromSubdevices env itemSuffix rest
      | Some sitem \<Rightarrow>
          if lastSetValid sitem then
            (case setValueString env (toVariant sitem) of
               Some v \<Rightarrow> Some v
             | None \<Rightarrow> fillFromSubdevices env itemSuffix rest)
          else fillFromSubdevices env itemSuffix rest)"

definition DEV_FillItemFromSubdevices :: "Env \<Rightarrow> Suffix \<Rightarrow> ResourcePtr list \<Rightarrow> Device \<Rightarrow> (bool \<times> Device) result" where
  "DEV_FillItemFromSubdevices env itemSuffix subs d =
     (case deviceStringItem d itemSuffix of
        None \<Rightarrow> Inl NullPointer
      | Some ditem \<Rightarrow>
          if str_lastSetValid ditem then Inr (True, d)
          else (case fillFromSubdevices env itemSuffix subs of
                  Some v \<Rightarrow> Inr (True, setDeviceStringItem itemSuffix v d)
                | None \<Rightarrow> Inr (False, d)))"

definition DEV_ZclRead :: "Env \<Rightarrow> 16 word \<Rightarrow> 16 word \<Rightarrow> Device \<Rightarrow> (bool \<times> Device) result" where
  "DEV_ZclRead env cl attrId d =
     (if \<not> reachable env d then Inr (False, d)
      else (case node d of
              None \<Rightarrow> Inl NullPointer
            | Some p \<Rightarrow>
                (case DEV_GetSimpleDescriptorForServerCluster (nodeAt env p) cl of
                   None \<Rightarrow> Inr (False, d)
                 | Some sd \<Rightarrow>
                     (let param = \<lparr>valid = True, zp_endpoint = endpoint sd, zp_clusterId = cl,
                                   attributes = [attrId]\<rparr>;
                          zclResult = ZCL_ReadAttributes env param (itemAttrExtAddress d) (itemAttrNwkAddress d);
                          d1 = d\<lparr>readResult := zclResult,
                                 effects := effects d
                                   @ [ReadAttributes param (itemAttrExtAddress d) (itemAttrNwkAddress d)]\<rparr>
                      in Inr (isEnqueued (readResult d1), d1)))))"

definition basicClusterItems :: "(Suffix \<times> 16 word \<times> 16 word) list" where
  "basicClusterItems = [(RAttrManufacturerName, 0x0000, 0x0004), (RAttrModelId, 0x0000, 0x0005)]"

text \<open>
  The item loop of the basic cluster state. The result is the count of filled items, whether
  the handler returned from inside the loop (a read is under way), and the device.
\<close>

fun basicClusterLoop :: "Env \<Rightarrow> ResourcePtr list \<Rightarrow> (Suffix \<times> 16 word \<times> 16 word) list \<Rightarrow> nat \<Rightarrow> Device \<Rightarrow> (nat \<times> bool \<times> Device) result" where
  "basicClusterLoop env subs [] okCount d = Inr (okCount, False, d)"
| "basicClusterLoop env subs (it # rest) okCount d =
     (case DEV_FillItemFromSubdevices env (fst it) subs d of
        Inl e \<Rightarrow> Inl e
      | Inr (filled, d1) \<Rightarrow>
          if filled then basicClusterLoop env subs rest (okCount + 1) d1
          else (case DEV_ZclRead env (fst (snd it)) (snd (snd it)) d1 of
                  Inl e \<Rightarrow> Inl e
                | Inr (sent, d2) \<Rightarrow>
                    if sent then Inr (okCount, True, startStateTimer MinMacPollRxOn StateLevel0 d2)
                    else Inr (okCount, False, d2)))"

definition readConfirmFailed :: "Env \<Rightarrow> Event \<Rightarrow> Device \<Rightarrow> bool" where
  "readConfirmFailed env event d =
     (apsReqId (readResult d) = EventApsConfirmId env event
      \<and> EventApsConfirmStatus env event \<noteq> ApsSuccessStatus)"

definition DEV_BasicClusterStateHandler :: "HandlerCall \<Rightarrow> Env \<Rightarrow> Event \<Rightarrow> Device \<Rightarrow> Device result" where
  "DEV_BasicClusterStateHandler call env event d =
     (if what event = REventStateEnter then
        (case basicClusterLoop env (Device_subDevices env d) basicClusterItems 0 d of
           Inl e \<Rightarrow> Inl e
         | Inr (okCount, returned, d1) \<Rightarrow>
             if returned then Inr d1
             else if okCount \<noteq> length basicClusterItems
             then setState call (Some InitState) StateLevel0 d1
             else setState call (Some GetDeviceDescriptionState) StateLevel0 d1)
      else if what event = REventApsConfirm then
        (if readConfirmFailed env event d
         then setState call (Some InitState) StateLevel0 d
         else Inr d)
      else if what event = RAttrManufacturerName \<or> what event = RAttrModelId then
        andThen (setState call (Some InitState) StateLevel0 (stopStateTimer StateLevel0 d))
          (\<lambda>d1. Inr (DEV_EnqueueEvent REventAwake d1))
      else if what event = REventStateTimeout then
        setState call (Some InitState) StateLevel0 d
      else Inr d)"

definition DEV_GetDeviceDescriptionHandler :: "HandlerCall \<Rightarrow> Env \<Rightarrow> Event \<Rightarrow> Device \<Rightarrow> Device result" where
  "DEV_GetDeviceDescriptionHandler call env event d =
     (if what event = REventStateEnter then Inr (DEV_EnqueueEvent REventDDFInitRequest d)
      else if what event = REventDDFInitResponse then
        (if num event = 1
         then setState call (Some IdleState) StateLevel0 d
         else setState call (Some DeadState) StateLevel0 d)
      else Inr d)"

text \<open>
  The idle state returns after \<^verbatim>\<open>REventStateEnter\<close> and \<^verbatim>\<open>REventStateLeave\<close>; after
  \<^verbatim>\<open>REventDDFReload\<close> it goes on to the item changes and to the two sub state machines.
\<close>

definition DEV_IdleStateHandler :: "HandlerCall \<Rightarrow> Env \<Rightarrow> Event \<Rightarrow> Device \<Rightarrow> Device result" where
  "DEV_IdleStateHandler call env event d =
     (if what event = REventStateEnter then
        andThen (setState call (Some BindingState) STATE_LEVEL_BINDING d)
          (setState call (Some PollIdleState) STATE_LEVEL_POLL)
      else if what event = REventStateLeave then
        andThen (setState call None STATE_LEVEL_BINDING d)
          (setState call None STATE_LEVEL_POLL)
      else
        andThen
          (if what event = REventDDFReload
           then setState call (Some InitState) StateLevel0 d
           else Inr d)
          (\<lambda>d1. andThen (DEV_CheckItemChanges env event d1)
             (\<lambda>d2. andThen (handleEvent call env event StateLevel1 d2)
                (handleEvent call env event StateLevel2))))"

definition DEV_DeadStateHandler :: "HandlerCall \<Rightarrow> Env \<Rightarrow> Event \<Rightarrow> Device \<Rightarrow> Device result" where
  "DEV_DeadStateHandler call env event d = Inr d"

subsection \<open>The binding sub state machine\<close>

definition bindingVerifyDue :: "Env \<Rightarrow> Device \<Rightarrow> bool" where
  "bindingVerifyDue env d =
     (case bindingVerify (binding d) of
        None \<Rightarrow> True
      | Some t \<Rightarrow> monotonicMs env - t > 1000 * 60 * 5)"

definition startBindingVerify :: "HandlerCall \<Rightarrow> Device \<Rightarrow> Device result" where
  "startBindingVerify call d =
     andThen
       (setState call (Some BindingTableVerifyState) STATE_LEVEL_BINDING
          (d\<lparr>binding := (binding d)\<lparr>bindingIter := 0\<rparr>\<rparr>))
       (\<lambda>d1. Inr (DEV_EnqueueEvent REventBindingTick d1))"

definition DEV_BindingHandler :: "HandlerCall \<Rightarrow> Env \<Rightarrow> Event \<Rightarrow> Device \<Rightarrow> Device result" where
  "DEV_BindingHandler call env event d =
     (if what event = REventPoll \<or> what event = REventAwake then
        (if bindingVerifyDue env d then startBindingVerify call d else Inr d)
      else if what event = REventBindingTable then
        startBindingVerify call
          (if num event = ZdpSuccess env
           then d\<lparr>binding := (binding d)\<lparr>mgmtBindSupported := True\<rparr>\<rparr>
           else if num event = ZdpNotSupported env
           then d\<lparr>binding := (binding d)\<lparr>mgmtBindSupported := False\<rparr>\<rparr>
           else d)
      else Inr d)"

definition DEV_BindingTableVerifyHandler :: "HandlerCall \<Rightarrow> Env \<Rightarrow> Event \<Rightarrow> Device \<Rightarrow> Device result" where
  "DEV_BindingTableVerifyHandler call env event d =
     (if what event \<noteq> REventBindingTick then Inr d
      else (case node d of
              None \<Rightarrow> Inl NullPointer
            | Some p \<Rightarrow>
                if bindingIter (binding d) \<ge> length (bindingTable (nodeAt env p))
                then setState call (Some BindingState) STATE_LEVEL_BINDING
                       (d\<lparr>binding := (binding d)\<lparr>bindingVerify := Some (monotonicMs env)\<rparr>\<rparr>)
                else Inr (DEV_EnqueueEvent REventBindingTick
                            (d\<lparr>binding := (binding d)\<lparr>bindingIter := bindingIter (binding d) + 1\<rparr>\<rparr>))))"

subsection \<open>The poll sub state machine\<close>

definition needsPoll :: "Env \<Rightarrow> ResourceItem \<Rightarrow> bool" where
  "needsPoll env item =
     (\<not> (lastSetValid item \<and> currentSecs env - lastSet item < refreshInterval item)
      \<and> \<not> isNullV (DDF_GetItem env item)
      \<and> toMap (DDF_GetItem env item) \<noteq> [])"

definition resourcePollItems :: "Env \<Rightarrow> ResourcePtr \<Rightarrow> PollItem list" where
  "resourcePollItems env r =
     map (\<lambda>i. newPollItem r (r, i) (DDF_GetItem env (ritems (resourceAt env r) ! i)))
       (filter (\<lambda>i. needsPoll env (ritems (resourceAt env r) ! i))
          [0 ..< length (ritems (resourceAt env r))])"

definition DEV_GetPollItems :: "Env \<Rightarrow> Device \<Rightarrow> PollItem list" where
  "DEV_GetPollItems env d = rev (concat (map (resourcePollItems env) (Device_subDevices env d)))"

definition DEV_PollIdleStateHandler :: "HandlerCall \<Rightarrow> Env \<Rightarrow> Event \<Rightarrow> Device \<Rightarrow> Device result" where
  "DEV_PollIdleStateHandler call env event d =
     (if what event = REventStateEnter then Inr d
      else if what event = REventPoll then
        (let d1 = d\<lparr>pollItems := DEV_GetPollItems env d\<rparr>
         in if pollItems d1 \<noteq> []
            then setState call (Some PollNextState) STATE_LEVEL_POLL d1
            else Inr d1)
      else Inr d)"

definition pop_back :: "'a list \<Rightarrow> 'a list result" where
  "pop_back v = (if v = [] then Inl PopEmpty else Inr (butlast v))"

text \<open>
  \<^verbatim>\<open>poll.retry++\<close> and the test against \<^verbatim>\<open>MaxPollItemRetries\<close> go through a reference to the
  last element of the vector, taken before anything was removed. While that element is
  still in the vector (\<open>live\<close>), the increment lands in the vector. After \<^verbatim>\<open>pop_back\<close> the
  reference points at the slot behind the new end, which still holds the fields of the
  removed item: the increment lands there, the vector is as it was, and the test reads the
  counter in that slot.
\<close>

definition retryThroughRef :: "bool \<Rightarrow> PollItem \<Rightarrow> Device \<Rightarrow> Device result" where
  "retryThroughRef live poll d =
     (let r = retry poll + 1;
          d1 = (if live then d\<lparr>pollItems := butlast (pollItems d) @ [poll\<lparr>retry := r\<rparr>]\<rparr> else d)
      in if r \<ge> MaxPollItemRetries
         then andThen (pop_back (pollItems d1)) (\<lambda>v. Inr (d1\<lparr>pollItems := v\<rparr>))
         else Inr d1)"

definition DEV_PollNextStateHandler :: "HandlerCall \<Rightarrow> Env \<Rightarrow> Event \<Rightarrow> Device \<Rightarrow> Device result" where
  "DEV_PollNextStateHandler call env event d =
     (if what event = REventStateEnter \<or> what event = REventStateTimeout then
        (let d1 = (if \<not> reachable env d then d\<lparr>pollItems := []\<rparr> else d)
         in if pollItems d1 = []
            then setState call (Some PollIdleState) STATE_LEVEL_POLL d1
            else
              (let poll = last (pollItems d1);
                   fn = DA_GetReadFunction env (readParameters poll);
                   d2 = d1\<lparr>readResult := emptyResult\<rparr>;
                   d3 = (case fn of
                           Some f \<Rightarrow>
                             d2\<lparr>readResult := f (pi_resource poll) (pi_item poll) (readParameters poll)
                                                 (readResult d2),
                                effects := effects d2
                                  @ [ReadCall (pi_resource poll) (pi_item poll) (readParameters poll)]\<rparr>
                         | None \<Rightarrow> d2\<lparr>pollItems := butlast (pollItems d2)\<rparr>)
               in if isEnqueued (readResult d3)
                  then setState call (Some PollBusyState) STATE_LEVEL_POLL d3
                  else andThen (retryThroughRef (fn \<noteq> None) poll d3)
                         (\<lambda>d4. Inr (startStateTimer MinMacPollRxOn STATE_LEVEL_POLL d4))))
      else if what event = REventStateLeave then Inr (stopStateTimer STATE_LEVEL_POLL d)
      else Inr d)"

definition DEV_PollBusyStateHandler :: "HandlerCall \<Rightarrow> Env \<Rightarrow> Event \<Rightarrow> Device \<Rightarrow> Device result" where
  "DEV_PollBusyStateHandler call env event d =
     (if what event = REventStateEnter then Inr (startStateTimer MinMacPollRxOn STATE_LEVEL_POLL d)
      else if what event = REventStateLeave then Inr (stopStateTimer STATE_LEVEL_POLL d)
      else if what event = REventApsConfirm
              \<and> EventApsConfirmId env event = apsReqId (readResult d) then
        andThen
          (if EventApsConfirmStatus env event = 0x00
           then andThen (pop_back (pollItems d)) (\<lambda>v. Inr (d\<lparr>pollItems := v\<rparr>))
           else if pollItems d = [] then Inl PopEmpty
           else retryThroughRef True (last (pollItems d)) d)
          (setState call (Some PollNextState) STATE_LEVEL_POLL)
      else if what event = REventStateTimeout then
        setState call (Some PollNextState) STATE_LEVEL_POLL d
      else Inr d)"

subsection \<open>Calling a handler\<close>

text \<open>
  A call through a handler pointer. The handlers call each other through \<^verbatim>\<open>setState\<close> and
  \<^verbatim>\<open>handleEvent\<close>; the first argument bounds the nesting of such calls.
\<close>

primrec callHandler :: "nat \<Rightarrow> Env \<Rightarrow> DeviceStateHandler \<Rightarrow> Event \<Rightarrow> Device \<Rightarrow> Device result" where
  "callHandler 0 env h event d = Inl CallDepth"
| "callHandler (Suc n) env h event d =
     (case h of
        InitState \<Rightarrow> DEV_InitStateHandler (callHandler n env) env event d
      | IdleState \<Rightarrow> DEV_IdleStateHandler (callHandler n env) env event d
      | NodeDescriptorState \<Rightarrow> DEV_NodeDescriptorStateHandler (callHandler n env) env event d
      | ActiveEndpointsState \<Rightarrow> DEV_ActiveEndpointsStateHandler (callHandler n env) env event d
      | SimpleDescriptorState \<Rightarrow> DEV_SimpleDescriptorStateHandler (callHandler n env) env event d
      | BasicClusterState \<Rightarrow> DEV_BasicClusterStateHandler (callHandler n env) env event d
      | GetDeviceDescriptionState \<Rightarrow> DEV_GetDeviceDescriptionHandler (callHandler n env) env event d
      | BindingState \<Rightarrow> DEV_BindingHandler (callHandler n env) env event d
      | BindingTableVerifyState \<Rightarrow> DEV_BindingTableVerifyHandler (callHandler n env) env event d
      | PollIdleState \<Rightarrow> DEV_PollIdleStateHandler (callHandler n env) env event d
      | PollNextState \<Rightarrow> DEV_PollNextStateHandler (callHandler n env) env event d
      | PollBusyState \<Rightarrow> DEV_PollBusyStateHandler (callHandler n env) env event d
      | DeadState \<Rightarrow> DEV_DeadStateHandler (callHandler n env) env event d)"

text \<open>
  The deepest nesting in the file is three calls: the idle state hands an event to a sub
  state machine, whose handler changes state, which calls the outgoing handler.
\<close>

definition maxCallDepth :: nat where
  "maxCallDepth = 3"

definition Device_handleEvent :: "Env \<Rightarrow> Event \<Rightarrow> DEV_StateLevel \<Rightarrow> Device \<Rightarrow> Device result" where
  "Device_handleEvent env event level d = handleEvent (callHandler maxCallDepth env) env event level d"

definition Device_setState :: "Env \<Rightarrow> DeviceStateHandler option \<Rightarrow> DEV_StateLevel \<Rightarrow> Device \<Rightarrow> Device result" where
  "Device_setState env newState level d = setState (callHandler maxCallDepth env) newState level d"

text \<open>
  \<^verbatim>\<open>Device::timerEvent\<close>, for the timer of level \<open>i\<close> firing. The timer is single shot; the
  handler of the level is called without a test for null.
\<close>

definition Device_timerEvent :: "Env \<Rightarrow> DEV_StateLevel \<Rightarrow> Device \<Rightarrow> Device result" where
  "Device_timerEvent env i d =
     (if timer d i \<noteq> None then
        (let d1 = d\<lparr>timer := (timer d)(i := None)\<rparr>
         in case state d1 i of
              None \<Rightarrow> Inl NullHandler
            | Some h \<Rightarrow>
                callHandler maxCallDepth env h
                  (mkEvent RDevices REventStateTimeout (levelNum i) (deviceKey d1)) d1)
      else Inr d)"

definition DEV_TestManaged :: "Env \<Rightarrow> bool" where
  "DEV_TestManaged env = (appArgumentNumeric env ''--dev-test-managed'' 0 > 0)"

text \<open>
  The constructor \<^verbatim>\<open>Device::Device\<close>: a \<^verbatim>\<open>DevicePrivate\<close> with empty slots and the seven
  items, and then \<^verbatim>\<open>setState(DEV_InitStateHandler)\<close>.
\<close>

definition blankDevice :: "Env \<Rightarrow> DeviceKey \<Rightarrow> Device" where
  "blankDevice env key =
     \<lparr>subDevices = [], node = None, deviceKey = key,
      state = (\<lambda>l. None), timer = (\<lambda>l. None), awake = None,
      binding = \<lparr>bindingVerify = None, bindingIter = 0, mgmtBindSupported = False\<rparr>,
      pollItems = [], managed = DEV_TestManaged env,
      zdpResult = emptyResult, readResult = emptyResult,
      itemStateReachable = False, itemAttrSleeper = False,
      itemAttrExtAddress = 0, itemAttrNwkAddress = 0,
      itemAttrUniqueId = generateUniqueId env key,
      itemAttrManufacturerName = \<lparr>str_lastSetValid = False, str_value = []\<rparr>,
      itemAttrModelId = \<lparr>str_lastSetValid = False, str_value = []\<rparr>,
      effects = []\<rparr>"

definition Device_new :: "Env \<Rightarrow> DeviceKey \<Rightarrow> Device result" where
  "Device_new env key = Device_setState env (Some InitState) StateLevel0 (blankDevice env key)"

text \<open>
  \<^verbatim>\<open>Device::addSubDevice\<close>: the sub-device gets the device as parent and is registered by
  unique id unless that id is registered already.
\<close>

definition Device_addSubDevice :: "Env \<Rightarrow> ResourcePtr \<Rightarrow> Device \<Rightarrow> Device result" where
  "Device_addSubDevice env sub d =
     (case ritem (resourceAt env sub) RAttrUniqueId of
        None \<Rightarrow> Inl NullPointer
      | Some u \<Rightarrow>
          (let uniqueId = toStringV (toVariant u);
               d1 = d\<lparr>effects := effects d @ [SetParentResource sub]\<rparr>
           in if find (\<lambda>s. fst s = uniqueId) (subDevices d1) \<noteq> None then Inr d1
              else Inr (d1\<lparr>subDevices := subDevices d1 @ [(uniqueId, prefix (resourceAt env sub))]\<rparr>)))"

subsection \<open>The registry\<close>

definition DEV_GetDevice :: "Device list \<Rightarrow> DeviceKey \<Rightarrow> Device option" where
  "DEV_GetDevice devices key = find (\<lambda>device. deviceKey device = key) devices"

definition DEV_GetOrCreateDevice :: "Env \<Rightarrow> Device list \<Rightarrow> DeviceKey \<Rightarrow> (Device list \<times> Device) result" where
  "DEV_GetOrCreateDevice env devices key =
     (case find (\<lambda>device. deviceKey device = key) devices of
        None \<Rightarrow> andThen (Device_new env key) (\<lambda>device. Inr (devices @ [device], device))
      | Some device \<Rightarrow> Inr (devices, device))"

text \<open>\<^verbatim>\<open>erase\<close> at the position \<^verbatim>\<open>find_if\<close> returned: the first device with the key.\<close>

fun eraseFirst :: "('a \<Rightarrow> bool) \<Rightarrow> 'a list \<Rightarrow> 'a list" where
  "eraseFirst P [] = []"
| "eraseFirst P (x # xs) = (if P x then xs else x # eraseFirst P xs)"

text \<open>
  \<^verbatim>\<open>DEV_RemoveDevice\<close>: the container after the call and the value returned. (Erasing the
  entry destroys the device, whose destructor detaches its sub-devices; they live outside
  the container.)
\<close>

definition DEV_RemoveDevice :: "Device list \<Rightarrow> DeviceKey \<Rightarrow> Device list \<times> bool" where
  "DEV_RemoveDevice devices key =
     (if find (\<lambda>device. deviceKey device = key) devices \<noteq> None
      then (eraseFirst (\<lambda>device. deviceKey device = key) devices, False)
      else (devices, False))"

subsection \<open>Runs\<close>

text \<open>
  What can happen to a device from outside: an event is delivered at some level, a timer
  of the device fires, a sub-device is added, or the plugin writes one of the two items
  that \<^verbatim>\<open>reachable\<close> reads. Each step sees the world as it is then.
\<close>

datatype Step =
    HandleEvent Event DEV_StateLevel
  | TimerEvent DEV_StateLevel
  | AddSubDevice ResourcePtr
  | SetReachable bool
  | SetSleeper bool

fun step :: "Env \<Rightarrow> Step \<Rightarrow> Device \<Rightarrow> Device result" where
  "step env (HandleEvent event level) d = Device_handleEvent env event level d"
| "step env (TimerEvent level) d = Device_timerEvent env level d"
| "step env (AddSubDevice sub) d = Device_addSubDevice env sub d"
| "step env (SetReachable b) d = Inr (d\<lparr>itemStateReachable := b\<rparr>)"
| "step env (SetSleeper b) d = Inr (d\<lparr>itemAttrSleeper := b\<rparr>)"

fun runSteps :: "(Env \<times> Step) list \<Rightarrow> Device \<Rightarrow> Device result" where
  "runSteps [] d = Inr d"
| "runSteps (s # rest) d = andThen (step (fst s) (snd s) d) (runSteps rest)"

fun isZdpRequest :: "Effect \<Rightarrow> bool" where
  "isZdpRequest (NodeDescriptorReq n) = True"
| "isZdpRequest (ActiveEndpointsReq n) = True"
| "isZdpRequest (SimpleDescriptorReq n e) = True"
| "isZdpRequest e = False"

definition zdpRequests :: "Device \<Rightarrow> Effect list" where
  "zdpRequests d = filter isZdpRequest (effects d)"

definition stateAfter :: "Device result \<Rightarrow> DEV_StateLevel \<Rightarrow> DeviceStateHandler option" where
  "stateAfter r l = (case r of Inr d \<Rightarrow> state d l | Inl e \<Rightarrow> None)"

definition zdpRequestsAfter :: "Device result \<Rightarrow> Effect list" where
  "zdpRequestsAfter r = (case r of Inr d \<Rightarrow> zdpRequests d | Inl e \<Rightarrow> [])"

subsection \<open>What \<open>setState\<close> amounts to\<close>

text \<open>
  Every handler but the idle one answers \<^verbatim>\<open>REventStateLeave\<close> without calling anything:
  the two busy poll states stop the poll timer, the others do nothing.
\<close>

definition leaveEffect :: "DeviceStateHandler \<Rightarrow> Device \<Rightarrow> Device" where
  "leaveEffect h d =
     (if h = PollNextState \<or> h = PollBusyState then stopStateTimer STATE_LEVEL_POLL d else d)"

fun leaveOf :: "DeviceStateHandler option \<Rightarrow> Device \<Rightarrow> Device" where
  "leaveOf None d = d"
| "leaveOf (Some h) d = leaveEffect h d"

definition install :: "DeviceStateHandler option \<Rightarrow> DEV_StateLevel \<Rightarrow> Device \<Rightarrow> Device" where
  "install newState level d =
     (let d2 = d\<lparr>state := (state d)(level := newState)\<rparr>
      in if newState \<noteq> None
         then eventNotify (mkEvent RDevices REventStateEnter (levelNum level) (deviceKey d2)) d2
         else d2)"

subsection \<open>Well-formed devices\<close>

fun isTopLevel :: "DeviceStateHandler \<Rightarrow> bool" where
  "isTopLevel InitState = True"
| "isTopLevel IdleState = True"
| "isTopLevel NodeDescriptorState = True"
| "isTopLevel ActiveEndpointsState = True"
| "isTopLevel SimpleDescriptorState = True"
| "isTopLevel BasicClusterState = True"
| "isTopLevel GetDeviceDescriptionState = True"
| "isTopLevel DeadState = True"
| "isTopLevel h = False"

fun isBinding :: "DeviceStateHandler \<Rightarrow> bool" where
  "isBinding BindingState = True"
| "isBinding BindingTableVerifyState = True"
| "isBinding h = False"

fun isPoll :: "DeviceStateHandler \<Rightarrow> bool" where
  "isPoll PollIdleState = True"
| "isPoll PollNextState = True"
| "isPoll PollBusyState = True"
| "isPoll h = False"

definition isDead :: "Device \<Rightarrow> bool" where
  "isDead d =
     (state d StateLevel0 = Some DeadState \<and> state d StateLevel1 = None
      \<and> state d StateLevel2 = None)"

text \<open>What entering the binding table verification leaves behind.\<close>

definition enteredVerify :: "Device \<Rightarrow> Device \<Rightarrow> bool" where
  "enteredVerify d d' =
     (state d' STATE_LEVEL_BINDING = Some BindingTableVerifyState
      \<and> bindingIter (binding d') = 0
      \<and> effects d' = effects d
           @ [EventNotify (mkEvent RDevices REventStateEnter 1 (deviceKey d)),
              EventNotify (mkEvent RDevices REventBindingTick 0 (deviceKey d))])"

subsection \<open>Example worlds and devices\<close>

text \<open>
  A world without nodes, resources or read functions, in which a node descriptor request
  is accepted.
\<close>

definition exampleEnv :: Env where
  "exampleEnv =
     \<lparr>monotonicMs = 100000, currentSecs = 1000,
      DEV_GetCoreNode = (\<lambda>k. None),
      nodeAt = (\<lambda>p. \<lparr>address_nwk = 0, address_ext = 0,
         nodeDescriptor = \<lparr>isNull = True, receiverOnWhenIdle = False\<rparr>, endpoints = [],
         simpleDescriptors = [], bindingTable = []\<rparr>),
      DEV_GetResource = (\<lambda>p u. None),
      resourceAt = (\<lambda>r. \<lparr>prefix = [], ritems = [], stateChanges = 0\<rparr>),
      DDF_GetItem = (\<lambda>i. QNull), DA_GetReadFunction = (\<lambda>v. None),
      ZDP_NodeDescriptorReq = (\<lambda>n. \<lparr>isEnqueued = True, apsReqId = 1, sequenceNumber = 1\<rparr>),
      ZDP_ActiveEndpointsReq = (\<lambda>n. emptyResult),
      ZDP_SimpleDescriptorReq = (\<lambda>n e. emptyResult),
      ZCL_ReadAttributes = (\<lambda>p e n. emptyResult),
      EventApsConfirmId = (\<lambda>e. 0), EventApsConfirmStatus = (\<lambda>e. 0),
      ZdpSuccess = 0, ZdpNotSupported = 132, setValueString = (\<lambda>v. None),
      appArgumentNumeric = (\<lambda>s d. d), generateUniqueId = (\<lambda>k. [])\<rparr>"

text \<open>The same world with a core node of network address 0 for every key.\<close>

definition coordinatorEnv :: Env where
  "coordinatorEnv = exampleEnv\<lparr>DEV_GetCoreNode := (\<lambda>k. Some 0)\<rparr>"

definition deviceInState :: "DeviceKey \<Rightarrow> DeviceStateHandler \<Rightarrow> Device" where
  "deviceInState key h = (blankDevice exampleEnv key)\<lparr>state := (\<lambda>l. None)(StateLevel0 := Some h)\<rparr>"

definition enterEvent :: "DEV_StateLevel \<Rightarrow> DeviceKey \<Rightarrow> Event" where
  "enterEvent l k = mkEvent RDevices REventStateEnter (levelNum l) k"

text \<open>An idle device whose binding table was verified this very moment.\<close>

definition justVerified :: Device where
  "justVerified =
     (blankDevice exampleEnv 1)
       \<lparr>state := (\<lambda>l. None)(StateLevel0 := Some IdleState, StateLevel1 := Some BindingState,
                             StateLevel2 := Some PollIdleState),
        binding := \<lparr>bindingVerify = Some (monotonicMs exampleEnv), bindingIter = 0,
                    mgmtBindSupported = False\<rparr>\<rparr>"

subsection \<open>Invariants\<close>

text \<open>
  The slots of a device: level 0 holds a top level handler; the two sub levels are either
  both empty, or level 0 is idle and they hold a binding handler and a poll handler.
\<close>

definition slotsOk :: "Device \<Rightarrow> bool" where
  "slotsOk d =
     ((case state d StateLevel0 of None \<Rightarrow> False | Some h \<Rightarrow> isTopLevel h)
      \<and> (case state d StateLevel1 of
            None \<Rightarrow> state d StateLevel2 = None
          | Some b \<Rightarrow> isBinding b \<and> state d StateLevel0 = Some IdleState
                      \<and> (case state d StateLevel2 of None \<Rightarrow> False | Some p \<Rightarrow> isPoll p)))"

text \<open>
  The poll queue, for a given table of read functions: every item has been retried less
  often than the limit, an item without a read function has never been retried, and while
  the poll machine is busy the queue has a head with a read function.
\<close>

definition pollItemOk :: "(QVariant \<Rightarrow> ReadFunction option) \<Rightarrow> PollItem \<Rightarrow> bool" where
  "pollItemOk getFn p =
     (retry p < MaxPollItemRetries \<and> (getFn (readParameters p) = None \<longrightarrow> retry p = 0))"

definition pollQueueOk :: "(QVariant \<Rightarrow> ReadFunction option) \<Rightarrow> Device \<Rightarrow> bool" where
  "pollQueueOk getFn d =
     (list_all (pollItemOk getFn) (pollItems d)
      \<and> (state d StateLevel2 = Some PollBusyState \<longrightarrow>
           pollItems d \<noteq> [] \<and> getFn (readParameters (last (pollItems d))) \<noteq> None))"

text \<open>Both together; the queue part can be left out.\<close>

definition deviceOk :: "bool \<Rightarrow> (QVariant \<Rightarrow> ReadFunction option) \<Rightarrow> Device \<Rightarrow> bool" where
  "deviceOk c g d = (slotsOk d \<and> (c \<longrightarrow> pollQueueOk g d))"

text \<open>
  What a handler of one level may do to the slots and the queue: a top level handler other
  than the idle one, a binding handler, a poll handler.
\<close>

definition topStep :: "Device \<Rightarrow> Device \<Rightarrow> bool" where
  "topStep d d' =
     (pollItems d' = pollItems d
      \<and> state d' StateLevel1 = state d StateLevel1
      \<and> state d' StateLevel2 = state d StateLevel2
      \<and> (case state d' StateLevel0 of None \<Rightarrow> False | Some h \<Rightarrow> isTopLevel h))"

definition bindStep :: "Device \<Rightarrow> Device \<Rightarrow> bool" where
  "bindStep d d' =
     (pollItems d' = pollItems d
      \<and> state d' StateLevel0 = state d StateLevel0
      \<and> state d' StateLevel2 = state d StateLevel2
      \<and> (case state d' StateLevel1 of None \<Rightarrow> False | Some h \<Rightarrow> isBinding h))"

definition pollSlots :: "Device \<Rightarrow> Device \<Rightarrow> bool" where
  "pollSlots d d' =
     (state d' StateLevel0 = state d StateLevel0
      \<and> state d' StateLevel1 = state d StateLevel1
      \<and> (case state d' StateLevel2 of None \<Rightarrow> False | Some h \<Rightarrow> isPoll h))"

definition pollStep :: "(QVariant \<Rightarrow> ReadFunction option) \<Rightarrow> Device \<Rightarrow> Device \<Rightarrow> bool" where
  "pollStep g d d' =
     (state d' StateLevel0 = state d StateLevel0
      \<and> state d' StateLevel1 = state d StateLevel1
      \<and> (case state d' StateLevel2 of None \<Rightarrow> False | Some h \<Rightarrow> isPoll h)
      \<and> pollQueueOk g d')"

text \<open>What \<^verbatim>\<open>setState(nullptr, level)\<close> amounts to for a sub level.\<close>

definition clearSub :: "DEV_StateLevel \<Rightarrow> Device \<Rightarrow> Device" where
  "clearSub l d = (if state d l = None then d else install None l (leaveOf (state d l) d))"

text \<open>The head of the queue after a failed read, and the tests the poll handlers make.\<close>

definition bumpRetry :: "PollItem \<Rightarrow> PollItem" where
  "bumpRetry p = p\<lparr>retry := retry p + 1\<rparr>"



text \<open>A run from the constructor on.\<close>

definition runFromNew :: "Env \<Rightarrow> DeviceKey \<Rightarrow> (Env \<times> Step) list \<Rightarrow> Device result" where
  "runFromNew env key steps = andThen (Device_new env key) (runSteps steps)"

text \<open>
  A mains powered light: its node is complete, its one sub-device carries manufacturer name
  and model id, and the description asks to read the model id with a function that does
  not exist.
\<close>

definition lightResource :: Resource where
  "lightResource =
     \<lparr>prefix = ''/lights'',
      ritems =
        [\<lparr>suffix = RAttrUniqueId, lastSetValid = True, lastSet = 0, refreshInterval = 0,
          toVariant = QString ''00:21:2e:00:00:00:00:01-01''\<rparr>,
         \<lparr>suffix = RAttrManufacturerName, lastSetValid = True, lastSet = 0, refreshInterval = 0,
          toVariant = QString ''Acme''\<rparr>,
         \<lparr>suffix = RAttrModelId, lastSetValid = True, lastSet = 0, refreshInterval = 0,
          toVariant = QString ''X''\<rparr>],
      stateChanges = 0\<rparr>"

definition lightNode :: Node where
  "lightNode =
     \<lparr>address_nwk = 0x1234, address_ext = 0x00212E0000000001,
      nodeDescriptor = \<lparr>isNull = False, receiverOnWhenIdle = True\<rparr>,
      endpoints = [0x01],
      simpleDescriptors = [\<lparr>endpoint = 0x01, deviceId = 0x0101, inClusters = [0x0000]\<rparr>],
      bindingTable = []\<rparr>"

definition lightEnv :: Env where
  "lightEnv = exampleEnv
     \<lparr>DEV_GetCoreNode := (\<lambda>k. Some 0), nodeAt := (\<lambda>p. lightNode),
      DEV_GetResource := (\<lambda>p u. Some 0), resourceAt := (\<lambda>r. lightResource),
      DDF_GetItem := (\<lambda>i. if suffix i = RAttrModelId then QMap [(''fn'', ''none'')] else QNull),
      setValueString := (\<lambda>v. Some (toStringV v))\<rparr>"

definition lightKey :: DeviceKey where
  "lightKey = 0x00212E0000000001"

text \<open>
  From the constructor to the idle state: the sub-device is added, and the states from
  init to the device description go by, each on its \<^verbatim>\<open>StateEnter\<close>.
\<close>

definition lightSteps :: "(Env \<times> Step) list" where
  "lightSteps =
     [(lightEnv, AddSubDevice 0),
      (lightEnv, HandleEvent (enterEvent StateLevel0 lightKey) StateLevel0),
      (lightEnv, HandleEvent (mkEvent RDevices REventPoll 0 lightKey) StateLevel0),
      (lightEnv, HandleEvent (enterEvent StateLevel0 lightKey) StateLevel0),
      (lightEnv, HandleEvent (enterEvent StateLevel0 lightKey) StateLevel0),
      (lightEnv, HandleEvent (enterEvent StateLevel0 lightKey) StateLevel0),
      (lightEnv, HandleEvent (enterEvent StateLevel0 lightKey) StateLevel0),
      (lightEnv, HandleEvent (enterEvent StateLevel0 lightKey) StateLevel0),
      (lightEnv, HandleEvent (mkEvent RDevices REventDDFInitResponse 1 lightKey) StateLevel0)]"

text \<open>
  Then the idle state is entered and a \<^verbatim>\<open>Poll\<close> fills the queue; in the first run the light
  has been marked reachable before, in the second it has not.
\<close>

definition pollingSteps :: "(Env \<times> Step) list" where
  "pollingSteps = lightSteps @
     [(lightEnv, HandleEvent (enterEvent StateLevel0 lightKey) StateLevel0),
      (lightEnv, SetReachable True),
      (lightEnv, HandleEvent (mkEvent RDevices REventPoll 0 lightKey) StateLevel0)]"

definition unreachableSteps :: "(Env \<times> Step) list" where
  "unreachableSteps = lightSteps @
     [(lightEnv, HandleEvent (enterEvent StateLevel0 lightKey) StateLevel0),
      (lightEnv, HandleEvent (mkEvent RDevices REventPoll 0 lightKey) StateLevel0)]"

text \<open>
  The same light with a description that asks to read the manufacturer name as well, so
  that a \<^verbatim>\<open>Poll\<close> queues two items; and the two runs above in that world.
\<close>

definition twoItemEnv :: Env where
  "twoItemEnv = lightEnv
     \<lparr>DDF_GetItem := (\<lambda>i. if suffix i = RAttrModelId \<or> suffix i = RAttrManufacturerName
                            then QMap [(''fn'', ''none'')] else QNull)\<rparr>"

definition twoItemPollingSteps :: "(Env \<times> Step) list" where
  "twoItemPollingSteps = map (\<lambda>s. (twoItemEnv, snd s)) pollingSteps"

definition twoItemUnreachableSteps :: "(Env \<times> Step) list" where
  "twoItemUnreachableSteps = map (\<lambda>s. (twoItemEnv, snd s)) unreachableSteps"

section \<open>Properties\<close>

subsection \<open>Calling handlers and changing state\<close>

lemma callHandler_unfold:
  "callHandler (Suc n) env InitState = DEV_InitStateHandler (callHandler n env) env"
  "callHandler (Suc n) env IdleState = DEV_IdleStateHandler (callHandler n env) env"
  "callHandler (Suc n) env NodeDescriptorState = DEV_NodeDescriptorStateHandler (callHandler n env) env"
  "callHandler (Suc n) env ActiveEndpointsState = DEV_ActiveEndpointsStateHandler (callHandler n env) env"
  "callHandler (Suc n) env SimpleDescriptorState = DEV_SimpleDescriptorStateHandler (callHandler n env) env"
  "callHandler (Suc n) env BasicClusterState = DEV_BasicClusterStateHandler (callHandler n env) env"
  "callHandler (Suc n) env GetDeviceDescriptionState = DEV_GetDeviceDescriptionHandler (callHandler n env) env"
  "callHandler (Suc n) env BindingState = DEV_BindingHandler (callHandler n env) env"
  "callHandler (Suc n) env BindingTableVerifyState = DEV_BindingTableVerifyHandler (callHandler n env) env"
  "callHandler (Suc n) env PollIdleState = DEV_PollIdleStateHandler (callHandler n env) env"
  "callHandler (Suc n) env PollNextState = DEV_PollNextStateHandler (callHandler n env) env"
  "callHandler (Suc n) env PollBusyState = DEV_PollBusyStateHandler (callHandler n env) env"
  "callHandler (Suc n) env DeadState = DEV_DeadStateHandler (callHandler n env) env"
  by (simp_all add: fun_eq_iff)

lemma mkEvent_sel [simp]:
  "what (mkEvent r w n k) = w" "num (mkEvent r w n k) = n"
  "ev_deviceKey (mkEvent r w n k) = k" "resource (mkEvent r w n k) = Some r"
  by (simp_all add: mkEvent_def)

lemma blank_sel [simp]:
  "state (blankDevice env key) = (\<lambda>l. None)" "deviceKey (blankDevice env key) = key"
  "node (blankDevice env key) = None"
  by (simp_all add: blankDevice_def)

lemma callHandler_leave:
  "h \<noteq> IdleState \<Longrightarrow> what event = REventStateLeave \<Longrightarrow>
   callHandler (Suc n) env h event d = Inr (leaveEffect h d)"
  by (cases h)
     (simp_all add: leaveEffect_def DEV_InitStateHandler_def DEV_NodeDescriptorStateHandler_def
        DEV_ActiveEndpointsStateHandler_def DEV_SimpleDescriptorStateHandler_def
        DEV_BasicClusterStateHandler_def DEV_GetDeviceDescriptionHandler_def
        DEV_BindingHandler_def DEV_BindingTableVerifyHandler_def DEV_PollIdleStateHandler_def
        DEV_PollNextStateHandler_def DEV_PollBusyStateHandler_def DEV_DeadStateHandler_def)

lemma setState_nonIdle:
  "state d level = Some h \<Longrightarrow> h \<noteq> IdleState \<Longrightarrow>
   setState (callHandler (Suc n) env) newState level d =
     Inr (if newState = Some h then d else install newState level (leaveEffect h d))"
  by (simp add: setState_def callHandler_leave andThen_def install_def Let_def
        del: callHandler.simps)

lemma setState_None:
  "state d level = None \<Longrightarrow>
   setState call newState level d = Inr (if newState = None then d else install newState level d)"
  by (auto simp: setState_def andThen_def install_def Let_def)

lemma setState_sub:
  "state d level \<noteq> Some IdleState \<Longrightarrow>
   setState (callHandler (Suc n) env) ns level d =
     Inr (if state d level = ns then d else install ns level (leaveOf (state d level) d))"
  by (cases "state d level") (auto simp: setState_None setState_nonIdle)

subsection \<open>The dead state\<close>

lemma dead_step:
  assumes "isDead d" "step env s d = Inr d'"
  shows "isDead d' \<and> zdpRequests d' = zdpRequests d"
proof (cases s)
  case (HandleEvent event level)
  show ?thesis
  proof (cases "what event = REventStateEnter \<or> what event = REventStateLeave")
    case True
    with assms HandleEvent show ?thesis
      by (cases "levelOfNum (num event)"; cases "the (levelOfNum (num event))")
         (auto simp: isDead_def Device_handleEvent_def handleEvent_def maxCallDepth_def
             numeral_3_eq_3 callHandler_unfold DEV_DeadStateHandler_def
           simp del: callHandler.simps(2))
  next
    case False
    with assms HandleEvent show ?thesis
      by (cases level)
         (auto simp: isDead_def Device_handleEvent_def handleEvent_def maxCallDepth_def
             numeral_3_eq_3 callHandler_unfold DEV_DeadStateHandler_def zdpRequests_def
           simp del: callHandler.simps(2) split: if_splits)
  qed
next
  case (TimerEvent level)
  with assms show ?thesis
    by (cases level)
       (auto simp: isDead_def Device_timerEvent_def maxCallDepth_def numeral_3_eq_3 Let_def
             callHandler_unfold DEV_DeadStateHandler_def zdpRequests_def
           simp del: callHandler.simps(2) split: if_splits)
next
  case (AddSubDevice sub)
  with assms show ?thesis
    by (auto simp: isDead_def Device_addSubDevice_def Let_def zdpRequests_def
          split: option.splits if_splits)
next
  case (SetReachable b)
  with assms show ?thesis by (auto simp: isDead_def zdpRequests_def)
next
  case (SetSleeper b)
  with assms show ?thesis by (auto simp: isDead_def zdpRequests_def)
qed

lemma dead_run:
  "isDead d \<Longrightarrow> runSteps steps d = Inr d' \<Longrightarrow> isDead d' \<and> zdpRequests d' = zdpRequests d"
proof (induction steps arbitrary: d)
  case Nil
  then show ?case by simp
next
  case (Cons s rest)
  from Cons.prems(2) obtain d1
    where s1: "step (fst s) (snd s) d = Inr d1" and r: "runSteps rest d1 = Inr d'"
    by (auto simp: andThen_def split: sum.splits)
  from dead_step[OF Cons.prems(1) s1] Cons.IH[OF _ r] show ?case by simp
qed

subsection \<open>Selectors through the small updates\<close>

lemma sel_eventNotify [simp]:
  "state (eventNotify e d) = state d" "pollItems (eventNotify e d) = pollItems d"
  "deviceKey (eventNotify e d) = deviceKey d"
  by (simp_all add: eventNotify_def)

lemma sel_EnqueueEvent [simp]:
  "state (DEV_EnqueueEvent e d) = state d" "pollItems (DEV_EnqueueEvent e d) = pollItems d"
  by (simp_all add: DEV_EnqueueEvent_def)

lemma sel_startStateTimer [simp]:
  "state (startStateTimer i l d) = state d" "pollItems (startStateTimer i l d) = pollItems d"
  by (simp_all add: startStateTimer_def)

lemma sel_stopStateTimer [simp]:
  "state (stopStateTimer l d) = state d" "pollItems (stopStateTimer l d) = pollItems d"
  by (simp_all add: stopStateTimer_def)

lemma sel_zdpRequest [simp]:
  "state (zdpRequest q r d) = state d" "pollItems (zdpRequest q r d) = pollItems d"
  by (simp_all add: zdpRequest_def)

lemma sel_leaveEffect [simp]:
  "state (leaveEffect h d) = state d" "pollItems (leaveEffect h d) = pollItems d"
  by (simp_all add: leaveEffect_def)

lemma sel_leaveOf [simp]:
  "state (leaveOf h d) = state d" "pollItems (leaveOf h d) = pollItems d"
  by (cases h; simp)+

lemma sel_install [simp]:
  "state (install ns l d) = (state d)(l := ns)" "pollItems (install ns l d) = pollItems d"
  by (simp_all add: install_def Let_def)

lemma sel_clearSub [simp]:
  "state (clearSub l d) = (state d)(l := None)" "pollItems (clearSub l d) = pollItems d"
  by (auto simp: clearSub_def)

lemma slotsOk_frame:
  assumes a: "state d' = state d"
  shows "slotsOk d' = slotsOk d"
  unfolding slotsOk_def a ..

lemma slotsOk_L1: "slotsOk d \<Longrightarrow> state d StateLevel1 = Some h \<Longrightarrow> isBinding h \<and> state d StateLevel0 = Some IdleState"
  by (auto simp: slotsOk_def)

lemma slotsOk_L2: "slotsOk d \<Longrightarrow> state d StateLevel2 = Some h \<Longrightarrow> isPoll h \<and> state d StateLevel0 = Some IdleState"
  by (auto simp: slotsOk_def split: option.splits)

lemma slotsOk_L0: "slotsOk d \<Longrightarrow> state d StateLevel0 = Some h \<Longrightarrow> isTopLevel h"
  by (auto simp: slotsOk_def split: option.splits)

lemma slotsOk_notIdle: "slotsOk d \<Longrightarrow> state d StateLevel1 \<noteq> Some IdleState \<and> state d StateLevel2 \<noteq> Some IdleState"
  by (auto simp: slotsOk_def split: option.splits)

subsection \<open>Top level handlers other than the idle one\<close>

text \<open>They change slot 0 only, and only to a top level handler; the queue stays.\<close>

lemma init_topStep:
  assumes "state d StateLevel0 = Some InitState"
    "callHandler (Suc (Suc n)) env InitState ev d = Inr d'"
  shows "topStep d d'"
  using assms
  by (auto simp add: callHandler_unfold DEV_InitStateHandler_def Let_def setState_sub topStep_def
       simp del: callHandler.simps(2) split: if_splits option.splits)

lemma nodeDescriptor_topStep:
  assumes "state d StateLevel0 = Some NodeDescriptorState"
    "callHandler (Suc (Suc n)) env NodeDescriptorState ev d = Inr d'"
  shows "topStep d d'"
  using assms
  by (auto simp add: callHandler_unfold DEV_NodeDescriptorStateHandler_def Let_def setState_sub
         topStep_def andThen_def
       simp del: callHandler.simps(2) split: if_splits option.splits)

lemma activeEndpoints_topStep:
  assumes "state d StateLevel0 = Some ActiveEndpointsState"
    "callHandler (Suc (Suc n)) env ActiveEndpointsState ev d = Inr d'"
  shows "topStep d d'"
  using assms
  by (auto simp add: callHandler_unfold DEV_ActiveEndpointsStateHandler_def Let_def setState_sub
         topStep_def andThen_def
       simp del: callHandler.simps(2) split: if_splits option.splits)

lemma simpleDescriptor_topStep:
  assumes "state d StateLevel0 = Some SimpleDescriptorState"
    "callHandler (Suc (Suc n)) env SimpleDescriptorState ev d = Inr d'"
  shows "topStep d d'"
  using assms
  by (auto simp add: callHandler_unfold DEV_SimpleDescriptorStateHandler_def Let_def setState_sub
         topStep_def andThen_def
       simp del: callHandler.simps(2) split: if_splits option.splits)

lemma fill_frame:
  "DEV_FillItemFromSubdevices env s subs d = Inr (b, d1) \<Longrightarrow>
   state d1 = state d \<and> pollItems d1 = pollItems d"
  by (auto simp: DEV_FillItemFromSubdevices_def setDeviceStringItem_def
        split: option.splits if_splits)

lemma zclRead_frame:
  "DEV_ZclRead env cl a d = Inr (b, d1) \<Longrightarrow>
   state d1 = state d \<and> pollItems d1 = pollItems d"
  by (auto simp: DEV_ZclRead_def Let_def split: option.splits if_splits)

lemma basicClusterLoop_frame:
  "basicClusterLoop env subs items k d = Inr (c, r, d1) \<Longrightarrow>
   state d1 = state d \<and> pollItems d1 = pollItems d"
proof (induction items arbitrary: k d)
  case Nil
  then show ?case by simp
next
  case (Cons it rest)
  show ?case
  proof (cases "DEV_FillItemFromSubdevices env (fst it) subs d")
    case (Inl e)
    with Cons.prems show ?thesis by simp
  next
    case (Inr bd)
    obtain filled d2 where bd: "bd = (filled, d2)" by (cases bd)
    note f = fill_frame[OF Inr[unfolded bd]]
    show ?thesis
    proof (cases filled)
      case True
      with Cons.prems Inr bd have "basicClusterLoop env subs rest (k + 1) d2 = Inr (c, r, d1)"
        by simp
      from Cons.IH[OF this] f show ?thesis by simp
    next
      case False
      show ?thesis
      proof (cases "DEV_ZclRead env (fst (snd it)) (snd (snd it)) d2")
        case (Inl e)
        with Cons.prems Inr bd False show ?thesis by simp
      next
        case (Inr sd)
        obtain sent d3 where sd: "sd = (sent, d3)" by (cases sd)
        note z = zclRead_frame[OF Inr[unfolded sd]]
        from Cons.prems \<open>DEV_FillItemFromSubdevices env (fst it) subs d = Inr bd\<close> bd False Inr sd
        have "d1 = (if sent then startStateTimer MinMacPollRxOn StateLevel0 d3 else d3)"
          by (auto split: if_splits)
        with z f show ?thesis by simp
      qed
    qed
  qed
qed

lemma basicCluster_topStep:
  assumes "state d StateLevel0 = Some BasicClusterState"
    "callHandler (Suc (Suc n)) env BasicClusterState ev d = Inr d'"
  shows "topStep d d'"
proof (cases "what ev = REventStateEnter")
  case True
  show ?thesis
  proof (cases "basicClusterLoop env (Device_subDevices env d) basicClusterItems 0 d")
    case (Inl e)
    with assms True show ?thesis
      by (simp add: callHandler_unfold DEV_BasicClusterStateHandler_def del: callHandler.simps(2))
  next
    case (Inr x)
    obtain c r d1 where x: "x = (c, r, d1)" by (cases x)
    from basicClusterLoop_frame[OF Inr[unfolded x]] have f: "state d1 = state d" "pollItems d1 = pollItems d"
      by simp_all
    from assms True Inr x f show ?thesis
      by (auto simp add: callHandler_unfold DEV_BasicClusterStateHandler_def setState_sub topStep_def
          simp del: callHandler.simps(2) split: if_splits)
  qed
next
  case False
  with assms show ?thesis
    by (auto simp add: callHandler_unfold DEV_BasicClusterStateHandler_def Let_def setState_sub
         topStep_def andThen_def
       simp del: callHandler.simps(2) split: if_splits option.splits)
qed

lemma getDeviceDescription_topStep:
  assumes "state d StateLevel0 = Some GetDeviceDescriptionState"
    "callHandler (Suc (Suc n)) env GetDeviceDescriptionState ev d = Inr d'"
  shows "topStep d d'"
  using assms
  by (auto simp add: callHandler_unfold DEV_GetDeviceDescriptionHandler_def Let_def setState_sub
         topStep_def andThen_def
       simp del: callHandler.simps(2) split: if_splits option.splits)

lemma dead_topStep:
  assumes "state d StateLevel0 = Some DeadState"
    "callHandler (Suc (Suc n)) env DeadState ev d = Inr d'"
  shows "topStep d d'"
  using assms
  by (auto simp add: callHandler_unfold DEV_DeadStateHandler_def topStep_def
       simp del: callHandler.simps(2))

lemma top_nonIdle_topStep:
  assumes "state d StateLevel0 = Some h" "isTopLevel h" "h \<noteq> IdleState"
    "callHandler (Suc (Suc n)) env h ev d = Inr d'"
  shows "topStep d d'"
  using assms
  by (cases h)
     (auto intro: init_topStep nodeDescriptor_topStep activeEndpoints_topStep
        simpleDescriptor_topStep basicCluster_topStep getDeviceDescription_topStep dead_topStep
        simp del: callHandler.simps(2))

subsection \<open>Binding handlers\<close>

lemma binding_bindStep:
  assumes "state d StateLevel1 = Some h" "isBinding h"
    "callHandler (Suc (Suc n)) env h ev d = Inr d'"
  shows "bindStep d d'"
  using assms
  by (cases h)
     (auto simp add: callHandler_unfold DEV_BindingHandler_def DEV_BindingTableVerifyHandler_def
         startBindingVerify_def Let_def setState_sub STATE_LEVEL_BINDING_def
         bindStep_def andThen_def
       simp del: callHandler.simps(2) split: if_splits option.splits)

subsection \<open>Poll handlers\<close>

lemma getPollItems_ok: "list_all (pollItemOk g) (DEV_GetPollItems env d)"
  by (auto simp: DEV_GetPollItems_def resourcePollItems_def list_all_iff pollItemOk_def
        newPollItem_def MaxPollItemRetries_def)

lemma list_all_butlast: "list_all P q \<Longrightarrow> list_all P (butlast q)"
  by (auto simp: list_all_iff dest: in_set_butlastD)

lemma list_all_last: "list_all P q \<Longrightarrow> q \<noteq> [] \<Longrightarrow> P (last q)"
  by (simp add: list_all_iff)

lemma retry_ok_live:
  assumes "pollItemOk g p" "g (readParameters p) \<noteq> None" "\<not> MaxPollItemRetries \<le> retry p + 1"
  shows "pollItemOk g (p\<lparr>retry := retry p + 1\<rparr>)"
  using assms by (auto simp add: pollItemOk_def not_le)

lemma retry_dead: "pollItemOk g p \<Longrightarrow> g (readParameters p) = None \<Longrightarrow> \<not> MaxPollItemRetries \<le> retry p + 1"
  by (simp add: pollItemOk_def MaxPollItemRetries_def word_le_nat_alt)


lemma retryThroughRef_live:
  assumes "list_all (pollItemOk g) (pollItems d)" "pollItems d \<noteq> []"
    "g (readParameters (last (pollItems d))) \<noteq> None"
    "retryThroughRef True (last (pollItems d)) d = Inr d'"
  shows "list_all (pollItemOk g) (pollItems d') \<and> state d' = state d"
proof (cases "MaxPollItemRetries \<le> retry (last (pollItems d)) + 1")
  case True
  with assms show ?thesis
    by (auto simp: retryThroughRef_def Let_def pop_back_def andThen_def list_all_butlast)
next
  case False
  from retry_ok_live[OF list_all_last[OF assms(1,2)] assms(3) False] False assms show ?thesis
    by (auto simp: retryThroughRef_def Let_def list_all_butlast)
qed

lemma retryThroughRef_dead:
  assumes "pollItemOk g p" "g (readParameters p) = None"
  shows "retryThroughRef False p d = Inr d"
  using retry_dead[OF assms] by (simp add: retryThroughRef_def Let_def)

lemma retryThroughRef_state: "retryThroughRef b p d = Inr d' \<Longrightarrow> state d' = state d"
  by (auto simp: retryThroughRef_def Let_def andThen_def pop_back_def split: if_splits)

lemma retryThroughRef_live_eq:
  assumes "pollItems d \<noteq> []"
  shows "retryThroughRef True (last (pollItems d)) d =
     Inr (d\<lparr>pollItems := (if MaxPollItemRetries \<le> retry (last (pollItems d)) + 1
                            then butlast (pollItems d)
                            else butlast (pollItems d) @ [bumpRetry (last (pollItems d))])\<rparr>)"
  using assms by (simp add: retryThroughRef_def Let_def andThen_def pop_back_def bumpRetry_def)

lemma pollIdle_pollStep:
  assumes "state d StateLevel2 = Some PollIdleState" "pollQueueOk (DA_GetReadFunction env) d"
    "callHandler (Suc (Suc n)) env PollIdleState ev d = Inr d'"
  shows "pollStep (DA_GetReadFunction env) d d'"
  using assms getPollItems_ok[of "DA_GetReadFunction env" env d]
  by (auto simp add: callHandler_unfold DEV_PollIdleStateHandler_def Let_def setState_sub
         STATE_LEVEL_POLL_def pollStep_def pollQueueOk_def
       simp del: callHandler.simps(2) split: if_splits)

lemma pollNext_pollStep:
  assumes "state d StateLevel2 = Some PollNextState" "pollQueueOk (DA_GetReadFunction env) d"
    "callHandler (Suc (Suc n)) env PollNextState ev d = Inr d'"
  shows "pollStep (DA_GetReadFunction env) d d'"
proof (cases "what ev = REventStateEnter \<or> what ev = REventStateTimeout")
  case False
  with assms show ?thesis
    by (auto simp add: callHandler_unfold DEV_PollNextStateHandler_def STATE_LEVEL_POLL_def
          pollStep_def pollQueueOk_def
        simp del: callHandler.simps(2) split: if_splits)
next
  case True
  define d1 where "d1 = (if \<not> reachable env d then d\<lparr>pollItems := []\<rparr> else d)"
  have d1: "state d1 = state d" "list_all (pollItemOk (DA_GetReadFunction env)) (pollItems d1)"
    using assms(2) by (auto simp: d1_def pollQueueOk_def)
  show ?thesis
  proof (cases "pollItems d1 = []")
    case e: True
    with assms True d1 show ?thesis
      by (auto simp add: callHandler_unfold DEV_PollNextStateHandler_def STATE_LEVEL_POLL_def
          pollStep_def pollQueueOk_def setState_sub d1_def[symmetric] Let_def
        simp del: callHandler.simps(2))
  next
    case ne: False
    let ?poll = "last (pollItems d1)"
    have pok: "pollItemOk (DA_GetReadFunction env) ?poll" using d1(2) ne by (rule list_all_last)
    show ?thesis
    proof (cases "DA_GetReadFunction env (readParameters ?poll)")
      case None
      from retryThroughRef_dead[OF pok None]
      have "\<And>x. retryThroughRef False ?poll x = Inr x" .
      with assms True d1 ne None show ?thesis
        by (auto simp add: callHandler_unfold DEV_PollNextStateHandler_def STATE_LEVEL_POLL_def
          pollStep_def pollQueueOk_def d1_def[symmetric] Let_def emptyResult_def andThen_def
          list_all_butlast
        simp del: callHandler.simps(2))
    next
      case (Some f)
      define d3 where "d3 = d1\<lparr>readResult := f (pi_resource ?poll) (pi_item ?poll) (readParameters ?poll) emptyResult,
                                effects := effects d1 @ [ReadCall (pi_resource ?poll) (pi_item ?poll) (readParameters ?poll)]\<rparr>"
      have d3: "state d3 = state d" "pollItems d3 = pollItems d1"
        using d1 by (simp_all add: d3_def)
      show ?thesis
      proof (cases "isEnqueued (readResult d3)")
        case enq: True
        with assms True d1 ne Some d3 show ?thesis
          by (auto simp add: callHandler_unfold DEV_PollNextStateHandler_def STATE_LEVEL_POLL_def
            pollStep_def pollQueueOk_def d1_def[symmetric] Let_def d3_def[symmetric] setState_sub
          simp del: callHandler.simps(2))
      next
        case nenq: False
        from assms(3) True ne Some nenq obtain d4 where
          r: "retryThroughRef True (last (pollItems d3)) d3 = Inr d4"
          and d': "d' = startStateTimer MinMacPollRxOn STATE_LEVEL_POLL d4"
          by (auto simp add: callHandler_unfold DEV_PollNextStateHandler_def
            d1_def[symmetric] Let_def d3_def[symmetric] d3 andThen_def
          simp del: callHandler.simps(2) split: sum.splits)
        have "list_all (pollItemOk (DA_GetReadFunction env)) (pollItems d4) \<and> state d4 = state d3"
          using d1 ne Some d3 by (intro retryThroughRef_live[OF _ _ _ r]) auto
        with d' d3 assms(1) show ?thesis
          by (auto simp: pollStep_def pollQueueOk_def)
      qed
    qed
  qed
qed

lemma pollBusy_pollStep:
  assumes "state d StateLevel2 = Some PollBusyState" "pollQueueOk (DA_GetReadFunction env) d"
    "callHandler (Suc (Suc n)) env PollBusyState ev d = Inr d'"
  shows "pollStep (DA_GetReadFunction env) d d'"
proof (cases "what ev = REventApsConfirm \<and> EventApsConfirmId env ev = apsReqId (readResult d)")
  case False
  with assms show ?thesis
    by (auto simp add: callHandler_unfold DEV_PollBusyStateHandler_def STATE_LEVEL_POLL_def
          pollStep_def pollQueueOk_def setState_sub
        simp del: callHandler.simps(2) split: if_splits)
next
  case True
  from assms have q: "pollItems d \<noteq> []" "list_all (pollItemOk (DA_GetReadFunction env)) (pollItems d)"
    "DA_GetReadFunction env (readParameters (last (pollItems d))) \<noteq> None"
    by (auto simp: pollQueueOk_def)
  show ?thesis
  proof (cases "EventApsConfirmStatus env ev = 0x00")
    case s: True
    with assms True q show ?thesis
      by (auto simp add: callHandler_unfold DEV_PollBusyStateHandler_def STATE_LEVEL_POLL_def
          pollStep_def pollQueueOk_def setState_sub andThen_def pop_back_def list_all_butlast
        simp del: callHandler.simps(2))
  next
    case f: False
    from assms(3) True f q(1) obtain d1 where
      r: "retryThroughRef True (last (pollItems d)) d = Inr d1"
      and d': "setState (callHandler (Suc n) env) (Some PollNextState) STATE_LEVEL_POLL d1 = Inr d'"
      by (auto simp add: callHandler_unfold DEV_PollBusyStateHandler_def andThen_def
          simp del: callHandler.simps(2) split: sum.splits)
    from retryThroughRef_live[OF q(2) q(1) q(3) r]
    have d1: "list_all (pollItemOk (DA_GetReadFunction env)) (pollItems d1)" "state d1 = state d"
      by simp_all
    with d' assms(1) show ?thesis
      by (auto simp: pollStep_def pollQueueOk_def setState_sub STATE_LEVEL_POLL_def
           simp del: callHandler.simps(2) split: if_splits)
  qed
qed

lemma poll_pollStep:
  assumes "state d StateLevel2 = Some h" "isPoll h" "pollQueueOk (DA_GetReadFunction env) d"
    "callHandler (Suc (Suc n)) env h ev d = Inr d'"
  shows "pollStep (DA_GetReadFunction env) d d'"
  using assms
  by (cases h) (auto intro: pollIdle_pollStep pollNext_pollStep pollBusy_pollStep
       simp del: callHandler.simps(2))

lemma pollIdle_slots:
  assumes "state d StateLevel2 = Some PollIdleState"
    "callHandler (Suc (Suc n)) env PollIdleState ev d = Inr d'"
  shows "pollSlots d d'"
  using assms
  by (auto simp add: callHandler_unfold DEV_PollIdleStateHandler_def Let_def setState_sub
         STATE_LEVEL_POLL_def pollSlots_def
       simp del: callHandler.simps(2) split: if_splits)

lemma pollNext_slots:
  assumes "state d StateLevel2 = Some PollNextState"
    "callHandler (Suc (Suc n)) env PollNextState ev d = Inr d'"
  shows "pollSlots d d'"
  using assms
  by (auto simp add: callHandler_unfold DEV_PollNextStateHandler_def Let_def setState_sub
         STATE_LEVEL_POLL_def pollSlots_def andThen_def
       simp del: callHandler.simps(2) split: if_splits option.splits sum.splits
       dest!: retryThroughRef_state)

lemma pollBusy_slots:
  assumes "state d StateLevel2 = Some PollBusyState"
    "callHandler (Suc (Suc n)) env PollBusyState ev d = Inr d'"
  shows "pollSlots d d'"
  using assms
  by (auto simp add: callHandler_unfold DEV_PollBusyStateHandler_def Let_def setState_sub
         STATE_LEVEL_POLL_def pollSlots_def andThen_def pop_back_def
       simp del: callHandler.simps(2) split: if_splits option.splits sum.splits
       dest!: retryThroughRef_state)

lemma poll_slots:
  assumes "state d StateLevel2 = Some h" "isPoll h"
    "callHandler (Suc (Suc n)) env h ev d = Inr d'"
  shows "pollSlots d d'"
  using assms
  by (cases h) (auto intro: pollIdle_slots pollNext_slots pollBusy_slots
       simp del: callHandler.simps(2))



subsection \<open>The idle state, steps and runs\<close>

lemma idle_leave:
  assumes "state d StateLevel1 \<noteq> Some IdleState" "state d StateLevel2 \<noteq> Some IdleState"
    "what ev = REventStateLeave"
  shows "callHandler (Suc (Suc n)) env IdleState ev d = Inr (clearSub StateLevel2 (clearSub StateLevel1 d))"
  using assms
  by (simp add: callHandler_unfold DEV_IdleStateHandler_def STATE_LEVEL_BINDING_def
        STATE_LEVEL_POLL_def setState_sub andThen_def clearSub_def
      del: callHandler.simps(2))

lemma setState_fromIdle:
  assumes "state d StateLevel0 = Some IdleState"
    "state d StateLevel1 \<noteq> Some IdleState" "state d StateLevel2 \<noteq> Some IdleState"
  shows "setState (callHandler (Suc (Suc n)) env) ns StateLevel0 d =
     Inr (if ns = Some IdleState then d
          else install ns StateLevel0 (clearSub StateLevel2 (clearSub StateLevel1 d)))"
  using assms
  by (simp add: setState_def idle_leave andThen_def install_def Let_def del: callHandler.simps(2))

lemma checkItemChanges_frame:
  "DEV_CheckItemChanges env ev d = Inr d' \<Longrightarrow> state d' = state d \<and> pollItems d' = pollItems d"
  by (auto simp: DEV_CheckItemChanges_def andThen_def split: sum.splits if_splits)

lemma deviceOk_topStep:
  assumes "deviceOk c g d" "state d StateLevel0 \<noteq> Some IdleState" "topStep d d'"
  shows "deviceOk c g d'"
  using assms by (auto simp: deviceOk_def slotsOk_def topStep_def pollQueueOk_def split: option.splits)

lemma deviceOk_bindStep:
  assumes "deviceOk c g d" "state d StateLevel1 \<noteq> None" "bindStep d d'"
  shows "deviceOk c g d'"
  using assms by (auto simp: deviceOk_def slotsOk_def bindStep_def pollQueueOk_def split: option.splits)

lemma deviceOk_pollStep:
  assumes "deviceOk c g d" "state d StateLevel2 \<noteq> None" "pollSlots d d'"
    "c \<longrightarrow> pollQueueOk g d'"
  shows "deviceOk c g d'"
  using assms by (auto simp: deviceOk_def slotsOk_def pollSlots_def split: option.splits)

lemma poll_call_deviceOk:
  assumes ok: "deviceOk c (DA_GetReadFunction env) d"
    and s: "state d StateLevel2 = Some h"
    and r: "callHandler (Suc (Suc n)) env h ev d = Inr d'"
  shows "deviceOk c (DA_GetReadFunction env) d'"
proof -
  from ok s have b: "isPoll h" by (auto simp: deviceOk_def dest: slotsOk_L2)
  have q: "c \<longrightarrow> pollQueueOk (DA_GetReadFunction env) d'"
  proof
    assume c
    with ok have "pollQueueOk (DA_GetReadFunction env) d" by (simp add: deviceOk_def)
    from poll_pollStep[OF s b this r] show "pollQueueOk (DA_GetReadFunction env) d'"
      by (simp add: pollStep_def)
  qed
  from poll_slots[OF s b r] ok s q show ?thesis
    by (auto intro: deviceOk_pollStep)
qed

lemma deviceOk_frame:
  assumes "deviceOk c g d" and a: "state d' = state d" "pollItems d' = pollItems d"
  shows "deviceOk c g d'"
  using assms(1) unfolding deviceOk_def slotsOk_def pollQueueOk_def a .

text \<open>An event handed to a sub state machine by the idle state, or delivered at its level.\<close>

lemma sub_handleEvent:
  assumes ok: "deviceOk c (DA_GetReadFunction env) d"
    and l: "l = StateLevel1 \<or> l = StateLevel2"
    and ev: "what ev \<noteq> REventStateEnter" "what ev \<noteq> REventStateLeave"
    and r: "handleEvent (callHandler (Suc (Suc n)) env) env ev l d = Inr d'"
  shows "deviceOk c (DA_GetReadFunction env) d'"
proof (cases "state d l")
  case None
  with r ev ok show ?thesis by (simp add: handleEvent_def)
next
  case (Some h)
  from l show ?thesis
  proof
    assume l1: "l = StateLevel1"
    from ok Some l1 have b: "isBinding h" by (auto simp: deviceOk_def dest: slotsOk_L1)
    from r ev Some l1 have "callHandler (Suc (Suc n)) env h ev d = Inr d'"
      by (simp add: handleEvent_def del: callHandler.simps(2))
    from binding_bindStep[OF Some[unfolded l1] b this] ok Some l1 show ?thesis
      by (auto intro: deviceOk_bindStep)
  next
    assume l2: "l = StateLevel2"
    from ok Some l2 have b: "isPoll h" by (auto simp: deviceOk_def dest: slotsOk_L2)
    from r ev Some l2 have "callHandler (Suc (Suc n)) env h ev d = Inr d'"
      by (simp add: handleEvent_def del: callHandler.simps(2))
    from poll_call_deviceOk[OF ok Some[unfolded l2] \<open>callHandler (Suc (Suc n)) env h ev d = Inr d'\<close>]
    show ?thesis .
  qed
qed

lemma idle_deviceOk:
  assumes ok: "deviceOk c (DA_GetReadFunction env) d"
    and s: "state d StateLevel0 = Some IdleState"
    and r: "callHandler (Suc (Suc (Suc n))) env IdleState ev d = Inr d'"
  shows "deviceOk c (DA_GetReadFunction env) d'"
proof -
  from ok have ni: "state d StateLevel1 \<noteq> Some IdleState" "state d StateLevel2 \<noteq> Some IdleState"
    by (auto simp: deviceOk_def dest: slotsOk_notIdle)
  consider (enter) "what ev = REventStateEnter" | (leave) "what ev = REventStateLeave"
    | (other) "what ev \<noteq> REventStateEnter" "what ev \<noteq> REventStateLeave" by blast
  then show ?thesis
  proof cases
    case enter
    with r ni have "state d' = (state d)(StateLevel1 := Some BindingState, StateLevel2 := Some PollIdleState)
        \<and> pollItems d' = pollItems d"
      by (auto simp add: callHandler_unfold DEV_IdleStateHandler_def STATE_LEVEL_BINDING_def
        STATE_LEVEL_POLL_def setState_sub andThen_def
        simp del: callHandler.simps(2) split: if_splits)
    with ok s show ?thesis
      by (auto simp: deviceOk_def slotsOk_def pollQueueOk_def)
  next
    case leave
    from r idle_leave[OF ni leave, of "Suc n" env]
    have "d' = clearSub StateLevel2 (clearSub StateLevel1 d)" by simp
    with ok s show ?thesis
      by (auto simp: deviceOk_def slotsOk_def pollQueueOk_def)
  next
    case other
    define r0 where "r0 = (if what ev = REventDDFReload
           then setState (callHandler (Suc (Suc n)) env) (Some InitState) StateLevel0 d
           else Inr d)"
    from r other obtain d1 d2 d3 where
      d1: "r0 = Inr d1"
      and d2: "DEV_CheckItemChanges env ev d1 = Inr d2"
      and d3: "handleEvent (callHandler (Suc (Suc n)) env) env ev StateLevel1 d2 = Inr d3"
      and d4: "handleEvent (callHandler (Suc (Suc n)) env) env ev StateLevel2 d3 = Inr d'"
      by (auto simp add: callHandler_unfold DEV_IdleStateHandler_def andThen_def r0_def
          simp del: callHandler.simps(2) split: sum.splits)
    have ok1: "deviceOk c (DA_GetReadFunction env) d1"
    proof (cases "what ev = REventDDFReload")
      case True
      with d1 setState_fromIdle[OF s ni, of n env "Some InitState"]
      have "d1 = install (Some InitState) StateLevel0 (clearSub StateLevel2 (clearSub StateLevel1 d))"
        by (simp add: r0_def del: callHandler.simps(2))
      with ok show ?thesis
        by (auto simp: deviceOk_def slotsOk_def pollQueueOk_def)
    next
      case False
      with d1 ok show ?thesis by (simp add: r0_def)
    qed
    from checkItemChanges_frame[OF d2] ok1 have ok2: "deviceOk c (DA_GetReadFunction env) d2"
      by (auto intro: deviceOk_frame)
    from sub_handleEvent[OF ok2 _ other d3] have ok3: "deviceOk c (DA_GetReadFunction env) d3" by simp
    from sub_handleEvent[OF ok3 _ other d4] show ?thesis by simp
  qed
qed

text \<open>Any call of the handler installed at a level.\<close>

lemma installed_call_deviceOk:
  assumes ok: "deviceOk c (DA_GetReadFunction env) d"
    and s: "state d l = Some h"
    and r: "callHandler (Suc (Suc (Suc n))) env h ev d = Inr d'"
  shows "deviceOk c (DA_GetReadFunction env) d'"
proof (cases l)
  case StateLevel0
  with ok s have t: "isTopLevel h" by (auto simp: deviceOk_def dest: slotsOk_L0)
  show ?thesis
  proof (cases "h = IdleState")
    case True
    with idle_deviceOk[OF ok _ r[unfolded True]] s StateLevel0 show ?thesis by simp
  next
    case False
    from top_nonIdle_topStep[OF s[unfolded StateLevel0] t False r] ok s StateLevel0 False
    show ?thesis by (auto intro: deviceOk_topStep)
  qed
next
  case StateLevel1
  with ok s have b: "isBinding h" by (auto simp: deviceOk_def dest: slotsOk_L1)
  from binding_bindStep[OF s[unfolded StateLevel1] b r] ok s StateLevel1 show ?thesis
    by (auto intro: deviceOk_bindStep)
next
  case StateLevel2
  with ok s have b: "isPoll h" by (auto simp: deviceOk_def dest: slotsOk_L2)
  from poll_call_deviceOk[OF ok s[unfolded StateLevel2] r] show ?thesis .
qed

lemma step_deviceOk:
  assumes ok: "deviceOk c (DA_GetReadFunction env) d" and r: "step env s d = Inr d'"
  shows "deviceOk c (DA_GetReadFunction env) d'"
proof (cases s)
  case (HandleEvent ev level)
  with r have r: "handleEvent (callHandler (Suc (Suc (Suc 0))) env) env ev level d = Inr d'"
    by (simp add: Device_handleEvent_def maxCallDepth_def numeral_3_eq_3 del: callHandler.simps(2))
  show ?thesis
  proof (cases "what ev = REventStateEnter \<or> what ev = REventStateLeave")
    case True
    with r obtain l h where "state d l = Some h"
       "callHandler (Suc (Suc (Suc 0))) env h ev d = Inr d'"
      by (auto simp: handleEvent_def simp del: callHandler.simps(2) split: option.splits)
    with ok show ?thesis by (auto intro: installed_call_deviceOk simp del: callHandler.simps(2))
  next
    case False
    show ?thesis
    proof (cases "state d level")
      case None
      with r False ok show ?thesis by (simp add: handleEvent_def)
    next
      case (Some h)
      define d1 where "d1 = (if what ev = REventAwake \<and> level = StateLevel0
                then d\<lparr>awake := Some (monotonicMs env)\<rparr> else d)"
      have f: "state d1 = state d" "pollItems d1 = pollItems d" by (simp_all add: d1_def)
      from deviceOk_frame[OF ok f] have ok1: "deviceOk c (DA_GetReadFunction env) d1" .
      from r False Some have "callHandler (Suc (Suc (Suc 0))) env h ev d1 = Inr d'"
        by (simp add: handleEvent_def d1_def del: callHandler.simps(2))
      from installed_call_deviceOk[OF ok1 _ this] Some f show ?thesis by simp
    qed
  qed
next
  case (TimerEvent i)
  show ?thesis
  proof (cases "timer d i")
    case None
    with r TimerEvent ok show ?thesis by (simp add: Device_timerEvent_def)
  next
    case (Some t)
    define d1 where "d1 = d\<lparr>timer := (timer d)(i := None)\<rparr>"
    have f: "state d1 = state d" "pollItems d1 = pollItems d" by (simp_all add: d1_def)
    from deviceOk_frame[OF ok f] have ok1: "deviceOk c (DA_GetReadFunction env) d1" .
    from r TimerEvent Some obtain h where "state d1 i = Some h"
      "callHandler (Suc (Suc (Suc 0))) env h
         (mkEvent RDevices REventStateTimeout (levelNum i) (deviceKey d1)) d1 = Inr d'"
      by (auto simp: Device_timerEvent_def Let_def d1_def maxCallDepth_def numeral_3_eq_3
          simp del: callHandler.simps(2) split: option.splits)
    with ok1 show ?thesis by (auto intro: installed_call_deviceOk simp del: callHandler.simps(2))
  qed
next
  case (AddSubDevice sub)
  with r have "state d' = state d \<and> pollItems d' = pollItems d"
    by (auto simp: Device_addSubDevice_def Let_def split: option.splits if_splits)
  with ok show ?thesis by (auto intro: deviceOk_frame)
next
  case (SetReachable b)
  with r ok show ?thesis by (auto intro: deviceOk_frame)
next
  case (SetSleeper b)
  with r ok show ?thesis by (auto intro: deviceOk_frame)
qed

lemma run_deviceOk:
  assumes "deviceOk c g d" "\<forall>s \<in> set steps. c \<longrightarrow> DA_GetReadFunction (fst s) = g"
    "runSteps steps d = Inr d'"
  shows "deviceOk c g d'"
  using assms
proof (induction steps arbitrary: d)
  case Nil
  then show ?case by simp
next
  case (Cons s rest)
  from Cons.prems(3) obtain d1
    where s1: "step (fst s) (snd s) d = Inr d1" and r: "runSteps rest d1 = Inr d'"
    by (auto simp: andThen_def split: sum.splits)
  have "deviceOk c (DA_GetReadFunction (fst s)) d"
  proof (cases c)
    case True
    with Cons.prems(1,2) show ?thesis by simp
  next
    case False
    with Cons.prems(1) show ?thesis by (simp add: deviceOk_def)
  qed
  from step_deviceOk[OF this s1] have "deviceOk c (DA_GetReadFunction (fst s)) d1" .
  then have "deviceOk c g d1"
  proof (cases c)
    case True
    with Cons.prems(2) \<open>deviceOk c (DA_GetReadFunction (fst s)) d1\<close> show ?thesis by simp
  next
    case False
    with \<open>deviceOk c (DA_GetReadFunction (fst s)) d1\<close> show ?thesis by (simp add: deviceOk_def)
  qed
  from Cons.IH[OF this _ r] Cons.prems(2) show ?case by simp
qed

lemma new_deviceOk: "Device_new env key = Inr d \<Longrightarrow> deviceOk c g d"
  by (auto simp: Device_new_def Device_setState_def setState_None install_def blankDevice_def
        deviceOk_def slotsOk_def pollQueueOk_def eventNotify_def Let_def)

lemma run_ok:
  assumes "runFromNew env0 key steps = Inr d"
    "\<forall>s \<in> set steps. c \<longrightarrow> DA_GetReadFunction (fst s) = g"
  shows "deviceOk c g d"
proof -
  from assms(1) obtain d0 where "Device_new env0 key = Inr d0" "runSteps steps d0 = Inr d"
    by (auto simp: runFromNew_def andThen_def split: sum.splits)
  from run_deviceOk[OF new_deviceOk[OF this(1)] assms(2) this(2)] show ?thesis .
qed

subsection \<open>The bound on the call depth\<close>

text \<open>
  With well-formed slots no call nests deeper than \<open>maxCallDepth\<close>: a run from the
  constructor never ends for want of depth.
\<close>

lemma init_depth:
  "state d StateLevel0 = Some InitState \<Longrightarrow>
   callHandler (Suc (Suc n)) env InitState ev d \<noteq> Inl CallDepth"
  by (auto simp add: callHandler_unfold DEV_InitStateHandler_def Let_def setState_sub
       simp del: callHandler.simps(2) split: if_splits option.splits)

lemma nodeDescriptor_depth:
  "state d StateLevel0 = Some NodeDescriptorState \<Longrightarrow>
   callHandler (Suc (Suc n)) env NodeDescriptorState ev d \<noteq> Inl CallDepth"
  by (auto simp add: callHandler_unfold DEV_NodeDescriptorStateHandler_def Let_def setState_sub
         andThen_def
       simp del: callHandler.simps(2) split: if_splits option.splits)

lemma activeEndpoints_depth:
  "state d StateLevel0 = Some ActiveEndpointsState \<Longrightarrow>
   callHandler (Suc (Suc n)) env ActiveEndpointsState ev d \<noteq> Inl CallDepth"
  by (auto simp add: callHandler_unfold DEV_ActiveEndpointsStateHandler_def Let_def setState_sub
         andThen_def
       simp del: callHandler.simps(2) split: if_splits option.splits)

lemma simpleDescriptor_depth:
  "state d StateLevel0 = Some SimpleDescriptorState \<Longrightarrow>
   callHandler (Suc (Suc n)) env SimpleDescriptorState ev d \<noteq> Inl CallDepth"
  by (auto simp add: callHandler_unfold DEV_SimpleDescriptorStateHandler_def Let_def setState_sub
         andThen_def
       simp del: callHandler.simps(2) split: if_splits option.splits)

lemma basicClusterLoop_depth:
  "basicClusterLoop env subs items k d \<noteq> Inl CallDepth"
  by (induction items arbitrary: k d)
     (auto simp: DEV_FillItemFromSubdevices_def DEV_ZclRead_def Let_def
        split: sum.splits option.splits if_splits prod.splits)

lemma basicCluster_depth:
  assumes "state d StateLevel0 = Some BasicClusterState"
  shows "callHandler (Suc (Suc n)) env BasicClusterState ev d \<noteq> Inl CallDepth"
proof (cases "what ev = REventStateEnter")
  case True
  show ?thesis
  proof (cases "basicClusterLoop env (Device_subDevices env d) basicClusterItems 0 d")
    case (Inl e)
    with basicClusterLoop_depth[of env "Device_subDevices env d" basicClusterItems 0 d] True
    show ?thesis
      by (simp add: callHandler_unfold DEV_BasicClusterStateHandler_def del: callHandler.simps(2))
  next
    case (Inr x)
    obtain c r d1 where x: "x = (c, r, d1)" by (cases x)
    from basicClusterLoop_frame[OF Inr[unfolded x]] have f: "state d1 = state d" by simp
    from assms True Inr x f show ?thesis
      by (auto simp add: callHandler_unfold DEV_BasicClusterStateHandler_def setState_sub
          simp del: callHandler.simps(2) split: if_splits)
  qed
next
  case False
  with assms show ?thesis
    by (auto simp add: callHandler_unfold DEV_BasicClusterStateHandler_def Let_def setState_sub
         andThen_def
       simp del: callHandler.simps(2) split: if_splits option.splits)
qed

lemma getDeviceDescription_depth:
  "state d StateLevel0 = Some GetDeviceDescriptionState \<Longrightarrow>
   callHandler (Suc (Suc n)) env GetDeviceDescriptionState ev d \<noteq> Inl CallDepth"
  by (auto simp add: callHandler_unfold DEV_GetDeviceDescriptionHandler_def setState_sub
       simp del: callHandler.simps(2))

lemma dead_depth:
  "callHandler (Suc (Suc n)) env DeadState ev d \<noteq> Inl CallDepth"
  by (simp add: callHandler_unfold DEV_DeadStateHandler_def del: callHandler.simps(2))

lemma top_nonIdle_depth:
  assumes "state d StateLevel0 = Some h" "isTopLevel h" "h \<noteq> IdleState"
  shows "callHandler (Suc (Suc n)) env h ev d \<noteq> Inl CallDepth"
  using assms
  by (cases h)
     (simp_all add: init_depth nodeDescriptor_depth activeEndpoints_depth
       simpleDescriptor_depth basicCluster_depth getDeviceDescription_depth dead_depth
       del: callHandler.simps(2))

lemma binding_depth:
  assumes "state d StateLevel1 = Some h" "isBinding h"
  shows "callHandler (Suc (Suc n)) env h ev d \<noteq> Inl CallDepth"
  using assms
  by (cases h)
     (auto simp add: callHandler_unfold DEV_BindingHandler_def DEV_BindingTableVerifyHandler_def
         startBindingVerify_def Let_def setState_sub STATE_LEVEL_BINDING_def andThen_def
       simp del: callHandler.simps(2) split: if_splits option.splits)

lemma retryThroughRef_depth: "retryThroughRef b p d \<noteq> Inl CallDepth"
  by (auto simp: retryThroughRef_def Let_def andThen_def pop_back_def)

lemma poll_depth:
  assumes "state d StateLevel2 = Some h" "isPoll h"
  shows "callHandler (Suc (Suc n)) env h ev d \<noteq> Inl CallDepth"
  using assms retryThroughRef_depth
  by (cases h)
     (auto simp add: callHandler_unfold DEV_PollIdleStateHandler_def DEV_PollNextStateHandler_def
         DEV_PollBusyStateHandler_def Let_def setState_sub STATE_LEVEL_POLL_def andThen_def
         pop_back_def retryThroughRef_live_eq
       simp del: callHandler.simps(2) split: if_splits option.splits sum.splits)

lemma getSubDeviceLoop_depth: "getSubDeviceLoop env pfx ident subs \<noteq> Inl CallDepth"
  by (induction subs) (auto split: option.splits)

lemma checkItemChanges_depth: "DEV_CheckItemChanges env ev d \<noteq> Inl CallDepth"
  using getSubDeviceLoop_depth[of env "resource ev" "ev_id ev" "Device_subDevices env d"]
  by (auto simp: DEV_CheckItemChanges_def DEV_GetSubDevice_def andThen_def split: sum.splits)

lemma sub_handleEvent_depth:
  assumes ok: "slotsOk d"
    and l: "l = StateLevel1 \<or> l = StateLevel2"
    and ev: "what ev \<noteq> REventStateEnter" "what ev \<noteq> REventStateLeave"
  shows "handleEvent (callHandler (Suc (Suc n)) env) env ev l d \<noteq> Inl CallDepth"
proof (cases "state d l")
  case None
  with ev show ?thesis by (simp add: handleEvent_def)
next
  case (Some h)
  from l show ?thesis
  proof
    assume l1: "l = StateLevel1"
    from ok Some l1 have b: "isBinding h" by (auto dest: slotsOk_L1)
    from binding_depth[OF Some[unfolded l1] b] ev Some l1 show ?thesis
      by (simp add: handleEvent_def del: callHandler.simps(2))
  next
    assume l2: "l = StateLevel2"
    from ok Some l2 have b: "isPoll h" by (auto dest: slotsOk_L2)
    from poll_depth[OF Some[unfolded l2] b] ev Some l2 show ?thesis
      by (simp add: handleEvent_def del: callHandler.simps(2))
  qed
qed

lemma idle_depth:
  assumes ok: "slotsOk d" and s: "state d StateLevel0 = Some IdleState"
  shows "callHandler (Suc (Suc (Suc n))) env IdleState ev d \<noteq> Inl CallDepth"
proof -
  from ok have ni: "state d StateLevel1 \<noteq> Some IdleState" "state d StateLevel2 \<noteq> Some IdleState"
    by (auto dest: slotsOk_notIdle)
  have dok: "deviceOk False (DA_GetReadFunction env) d" using ok by (simp add: deviceOk_def)
  consider (enter) "what ev = REventStateEnter" | (leave) "what ev = REventStateLeave"
    | (other) "what ev \<noteq> REventStateEnter" "what ev \<noteq> REventStateLeave" by blast
  then show ?thesis
  proof cases
    case enter
    with ni show ?thesis
      by (auto simp add: callHandler_unfold DEV_IdleStateHandler_def STATE_LEVEL_BINDING_def
        STATE_LEVEL_POLL_def setState_sub andThen_def
        simp del: callHandler.simps(2) split: if_splits)
  next
    case leave
    from idle_leave[OF ni leave, of "Suc n" env] show ?thesis by simp
  next
    case other
    define r0 where "r0 = (if what ev = REventDDFReload
           then setState (callHandler (Suc (Suc n)) env) (Some InitState) StateLevel0 d
           else Inr d)"
    have r0: "\<exists>d1. r0 = Inr d1 \<and> slotsOk d1"
    proof (cases "what ev = REventDDFReload")
      case True
      with setState_fromIdle[OF s ni, of n env "Some InitState"] ok show ?thesis
        by (auto simp add: r0_def slotsOk_def simp del: callHandler.simps(2))
    next
      case False
      with ok show ?thesis by (simp add: r0_def)
    qed
    then obtain d1 where d1: "r0 = Inr d1" "slotsOk d1" by blast
    show ?thesis
    proof (cases "DEV_CheckItemChanges env ev d1")
      case (Inl e)
      with checkItemChanges_depth[of env ev d1] d1 other show ?thesis
        by (simp add: callHandler_unfold DEV_IdleStateHandler_def andThen_def r0_def[symmetric]
            del: callHandler.simps(2))
    next
      case (Inr d2)
      from checkItemChanges_frame[OF Inr] have "state d2 = state d1" by simp
      from slotsOk_frame[OF this] d1(2) have ok2: "slotsOk d2" by simp
      show ?thesis
      proof (cases "handleEvent (callHandler (Suc (Suc n)) env) env ev StateLevel1 d2")
        case (Inl e)
        with sub_handleEvent_depth[OF ok2 _ other, of StateLevel1 n env] d1 Inr other show ?thesis
          by (simp add: callHandler_unfold DEV_IdleStateHandler_def andThen_def r0_def[symmetric]
              del: callHandler.simps(2))
      next
        case d3: (Inr d3)
        from ok2 have "deviceOk False (DA_GetReadFunction env) d2" by (simp add: deviceOk_def)
        from sub_handleEvent[OF this _ other d3] have ok3: "slotsOk d3" by (simp add: deviceOk_def)
        from sub_handleEvent_depth[OF ok3 _ other, of StateLevel2 n env] d1 Inr d3 other show ?thesis
          by (simp add: callHandler_unfold DEV_IdleStateHandler_def andThen_def r0_def[symmetric]
              del: callHandler.simps(2))
      qed
    qed
  qed
qed

lemma installed_call_depth:
  assumes ok: "slotsOk d" and s: "state d l = Some h"
  shows "callHandler (Suc (Suc (Suc n))) env h ev d \<noteq> Inl CallDepth"
proof (cases l)
  case StateLevel0
  with ok s have t: "isTopLevel h" by (auto dest: slotsOk_L0)
  show ?thesis
  proof (cases "h = IdleState")
    case True
    with idle_depth[OF ok] s StateLevel0 show ?thesis by simp
  next
    case False
    from top_nonIdle_depth[OF s[unfolded StateLevel0] t False] show ?thesis .
  qed
next
  case StateLevel1
  with ok s have b: "isBinding h" by (auto dest: slotsOk_L1)
  from binding_depth[OF s[unfolded StateLevel1] b] show ?thesis .
next
  case StateLevel2
  with ok s have b: "isPoll h" by (auto dest: slotsOk_L2)
  from poll_depth[OF s[unfolded StateLevel2] b] show ?thesis .
qed

lemma handleEvent_depth:
  assumes ok: "slotsOk d"
  shows "Device_handleEvent env ev level d \<noteq> Inl CallDepth"
proof (cases "what ev = REventStateEnter \<or> what ev = REventStateLeave")
  case True
  show ?thesis
  proof (cases "levelOfNum (num ev)")
    case None
    with True show ?thesis
      by (simp add: Device_handleEvent_def handleEvent_def)
  next
    case (Some l)
    show ?thesis
    proof (cases "state d l")
      case None
      with True Some show ?thesis
        by (simp add: Device_handleEvent_def handleEvent_def)
    next
      case h: (Some h)
      have "callHandler maxCallDepth env h ev d \<noteq> Inl CallDepth"
        unfolding maxCallDepth_def numeral_3_eq_3 by (rule installed_call_depth[OF ok h])
      with True Some h show ?thesis
        by (simp add: Device_handleEvent_def handleEvent_def)
    qed
  qed
next
  case False
  show ?thesis
  proof (cases "state d level")
    case None
    with False show ?thesis
      by (simp add: Device_handleEvent_def handleEvent_def)
  next
    case (Some h)
    define d1 where "d1 = (if what ev = REventAwake \<and> level = StateLevel0
              then d\<lparr>awake := Some (monotonicMs env)\<rparr> else d)"
    have s1: "state d1 = state d" by (simp add: d1_def)
    from slotsOk_frame[OF s1] ok have ok1: "slotsOk d1" by simp
    from Some s1 have h1: "state d1 level = Some h" by simp
    have "callHandler maxCallDepth env h ev d1 \<noteq> Inl CallDepth"
      unfolding maxCallDepth_def numeral_3_eq_3 by (rule installed_call_depth[OF ok1 h1])
    with False Some show ?thesis
      by (simp add: Device_handleEvent_def handleEvent_def d1_def)
  qed
qed

lemma timerEvent_depth:
  assumes ok: "slotsOk d"
  shows "Device_timerEvent env i d \<noteq> Inl CallDepth"
proof (cases "timer d i")
  case None
  then show ?thesis by (simp add: Device_timerEvent_def)
next
  case (Some t)
  define d1 where "d1 = d\<lparr>timer := (timer d)(i := None)\<rparr>"
  have s1: "state d1 = state d" by (simp add: d1_def)
  from slotsOk_frame[OF s1] ok have ok1: "slotsOk d1" by simp
  show ?thesis
  proof (cases "state d i")
    case None
    with Some show ?thesis by (simp add: Device_timerEvent_def)
  next
    case h: (Some h)
    with s1 have h1: "state d1 i = Some h" by simp
    have "callHandler maxCallDepth env h
             (mkEvent RDevices REventStateTimeout (levelNum i) (deviceKey d)) d1 \<noteq> Inl CallDepth"
      unfolding maxCallDepth_def numeral_3_eq_3 by (rule installed_call_depth[OF ok1 h1])
    with Some h show ?thesis
      by (simp add: Device_timerEvent_def d1_def)
  qed
qed

lemma step_depth:
  assumes ok: "slotsOk d"
  shows "step env s d \<noteq> Inl CallDepth"
proof (cases s)
  case (HandleEvent ev level)
  with handleEvent_depth[OF ok] show ?thesis by simp
next
  case (TimerEvent i)
  with timerEvent_depth[OF ok] show ?thesis by simp
next
  case (AddSubDevice sub)
  then show ?thesis
    by (auto simp: Device_addSubDevice_def Let_def split: option.splits)
qed simp_all

lemma run_depth: "slotsOk d \<Longrightarrow> runSteps steps d \<noteq> Inl CallDepth"
proof (induction steps arbitrary: d)
  case Nil
  then show ?case by simp
next
  case (Cons s rest)
  show ?case
  proof (cases "step (fst s) (snd s) d")
    case (Inl e)
    with step_depth[OF Cons.prems, of "fst s" "snd s"] show ?thesis by (simp add: andThen_def)
  next
    case (Inr d1)
    from Cons.prems have "deviceOk False (DA_GetReadFunction (fst s)) d" by (simp add: deviceOk_def)
    from step_deviceOk[OF this Inr] have "slotsOk d1" by (simp add: deviceOk_def)
    from Cons.IH[OF this] Inr show ?thesis by (simp add: andThen_def)
  qed
qed

lemma runFromNew_depth: "runFromNew env key steps \<noteq> Inl CallDepth"
proof (cases "Device_new env key")
  case (Inl e)
  then show ?thesis
    by (simp add: Device_new_def Device_setState_def setState_None blankDevice_def)
next
  case (Inr d0)
  from new_deviceOk[OF Inr, of False "\<lambda>v. None"] have "slotsOk d0" by (simp add: deviceOk_def)
  from run_depth[OF this] Inr show ?thesis by (simp add: runFromNew_def andThen_def)
qed

subsection \<open>Evaluating the example runs\<close>

lemmas handler_defs = DEV_InitStateHandler_def DEV_NodeDescriptorStateHandler_def
        DEV_ActiveEndpointsStateHandler_def DEV_SimpleDescriptorStateHandler_def
        DEV_BasicClusterStateHandler_def DEV_GetDeviceDescriptionHandler_def
        DEV_BindingHandler_def DEV_BindingTableVerifyHandler_def DEV_PollIdleStateHandler_def
        DEV_PollNextStateHandler_def DEV_PollBusyStateHandler_def DEV_DeadStateHandler_def
        DEV_IdleStateHandler_def

lemmas eval_defs = lightEnv_def lightNode_def lightResource_def lightKey_def lightSteps_def
   exampleEnv_def runFromNew_def Device_new_def Device_setState_def blankDevice_def
   Device_addSubDevice_def Device_handleEvent_def handleEvent_def Device_timerEvent_def
   levelOfNum_def maxCallDepth_def numeral_3_eq_3 callHandler_unfold handler_defs
   setState_def andThen_def eventNotify_def mkEvent_def enterEvent_def RDevices_def
   Let_def isCoordinator_def reachable_def lastAwakeMs_def MinMacPollRxOn_def zdpRequest_def
   startStateTimer_def stopStateTimer_def emptyResult_def DEV_TestManaged_def
   ritem_def toStringV_def copySimpleDescriptor_def DEV_GetSimpleDescriptorForServerCluster_def
   deviceStringItem_def setDeviceStringItem_def DEV_FillItemFromSubdevices_def DEV_ZclRead_def
   basicClusterItems_def Device_subDevices_def List.map_filter_def DEV_EnqueueEvent_def
   stateAfter_def DEV_CheckItemChanges_def DEV_GetSubDevice_def tickStateChanges_def
   STATE_LEVEL_BINDING_def STATE_LEVEL_POLL_def

lemmas run_defs = eval_defs pollingSteps_def unreachableSteps_def DEV_GetPollItems_def
  resourcePollItems_def needsPoll_def newPollItem_def isNullV_def toMap_def
  bindingVerifyDue_def startBindingVerify_def

lemmas run2_defs = run_defs twoItemEnv_def twoItemPollingSteps_def twoItemUnreachableSteps_def

subsection \<open>Reachability\<close>

text \<open>
  Claim C3. \<^verbatim>\<open>reachable()\<close> is true exactly when the last \<^verbatim>\<open>Awake\<close> (the start of the
  \<^verbatim>\<open>awake\<close> timer) is less than 8000 ms ago, or the node exists with a node descriptor that
  has \<^verbatim>\<open>receiverOnWhenIdle\<close> set and the stored reachable item is true, or the sleeper item is
  false and the stored reachable item is true. For a device that never got \<^verbatim>\<open>Awake\<close> only the
  last two can make it true.
\<close>

theorem reachable_rule:
  "(reachable env d \<longleftrightarrow>
      (\<exists>t. awake d = Some t \<and> monotonicMs env - t < 8000)
      \<or> ((\<exists>p. node d = Some p \<and> \<not> isNull (nodeDescriptor (nodeAt env p))
               \<and> receiverOnWhenIdle (nodeDescriptor (nodeAt env p))) \<and> itemStateReachable d)
      \<or> (\<not> itemAttrSleeper d \<and> itemStateReachable d))
   \<and> (reachable env (d\<lparr>awake := None\<rparr>) \<longleftrightarrow>
      ((\<exists>p. node d = Some p \<and> \<not> isNull (nodeDescriptor (nodeAt env p))
               \<and> receiverOnWhenIdle (nodeDescriptor (nodeAt env p))) \<and> itemStateReachable d)
      \<or> (\<not> itemAttrSleeper d \<and> itemStateReachable d))"
  by (auto simp: reachable_def lastAwakeMs_def MinMacPollRxOn_def split: option.splits)

subsection \<open>The binding sub state machine\<close>

text \<open>
  Claim C4, as the code has it. In the binding idle state, \<^verbatim>\<open>Poll\<close> and \<^verbatim>\<open>Awake\<close> enter the
  binding table verification only when the table was never verified or the last
  verification is more than 300000 ms ago, and change nothing otherwise. A \<^verbatim>\<open>BindingTable\<close>
  event records whether \<^verbatim>\<open>Mgmt_Bind\<close> is supported and then enters the verification
  whatever the age of the last one. Any other event changes nothing.
\<close>

theorem binding_idle_transitions:
  assumes "state d STATE_LEVEL_BINDING = Some BindingState"
  shows "\<exists>d'. callHandler maxCallDepth env BindingState event d = Inr d' \<and>
     (if what event = REventPoll \<or> what event = REventAwake then
        (if bindingVerify (binding d) = None
            \<or> (\<exists>t. bindingVerify (binding d) = Some t \<and> monotonicMs env - t > 300000)
         then enteredVerify d d' else d' = d)
      else if what event = REventBindingTable then
        enteredVerify d d'
        \<and> mgmtBindSupported (binding d') =
            (if num event = ZdpSuccess env then True
             else if num event = ZdpNotSupported env then False
             else mgmtBindSupported (binding d))
      else d' = d)"
  using assms
  by (auto simp add: maxCallDepth_def numeral_3_eq_3 callHandler_unfold DEV_BindingHandler_def
        startBindingVerify_def bindingVerifyDue_def andThen_def
        setState_sub install_def leaveEffect_def DEV_EnqueueEvent_def eventNotify_def
        enteredVerify_def STATE_LEVEL_BINDING_def Let_def
        simp del: callHandler.simps(2) split: option.splits)

theorem binding_idle_transitions_witness:
  "state justVerified STATE_LEVEL_BINDING = Some BindingState
   \<and> callHandler maxCallDepth exampleEnv BindingState (mkEvent RDevices REventPoll 0 1) justVerified
       = Inr justVerified"
  using binding_idle_transitions [of justVerified exampleEnv "mkEvent RDevices REventPoll 0 1"]
  by (simp add: justVerified_def STATE_LEVEL_BINDING_def exampleEnv_def)

text \<open>
  Claim C4 as stated fails: a \<^verbatim>\<open>BindingTable\<close> event enters the verification although the
  table was verified at this very moment.
\<close>

theorem binding_table_event_counterexample:
  "bindingVerify (binding justVerified) = Some (monotonicMs exampleEnv)
   \<and> stateAfter (callHandler maxCallDepth exampleEnv BindingState
        (mkEvent RDevices REventBindingTable 0 1) justVerified) STATE_LEVEL_BINDING
      = Some BindingTableVerifyState"
  by (simp add: justVerified_def stateAfter_def maxCallDepth_def numeral_3_eq_3 callHandler_unfold
        DEV_BindingHandler_def startBindingVerify_def andThen_def setState_sub install_def
        leaveEffect_def DEV_EnqueueEvent_def eventNotify_def STATE_LEVEL_BINDING_def Let_def
        exampleEnv_def
        del: callHandler.simps(2))

subsection \<open>The init state\<close>

text \<open>
  Claim C6, as the code has it. For a device in the init state with no node, none in the
  core either, and a key whose upper 32 bits are zero, the events \<^verbatim>\<open>Poll\<close>, \<^verbatim>\<open>Awake\<close>, the two
  reachable items, \<^verbatim>\<open>StateTimeout\<close> and \<^verbatim>\<open>LastUpdated\<close> lead to the dead state; every other
  event, \<^verbatim>\<open>StateEnter\<close> among them, leaves the device in the init state.
\<close>

theorem init_greenpower:
  assumes "state d StateLevel0 = Some InitState"
      and "node d = None" and "DEV_GetCoreNode env (deviceKey d) = None"
      and "(deviceKey d AND 0xffffffff00000000) = 0"
  shows "\<exists>d'. callHandler maxCallDepth env InitState event d = Inr d' \<and>
           state d' StateLevel0 =
             (if what event = REventPoll \<or> what event = REventAwake
                 \<or> what event = RConfigReachable \<or> what event = RStateReachable
                 \<or> what event = REventStateTimeout \<or> what event = RStateLastUpdated
              then Some DeadState else Some InitState)"
  using assms
  by (simp add: maxCallDepth_def numeral_3_eq_3 callHandler_unfold DEV_InitStateHandler_def
        Let_def isCoordinator_def setState_nonIdle install_def leaveEffect_def eventNotify_def
        del: callHandler.simps(2))

theorem init_greenpower_witness:
  "state (deviceInState 1 InitState) StateLevel0 = Some InitState
   \<and> node (deviceInState 1 InitState) = None
   \<and> DEV_GetCoreNode exampleEnv (deviceKey (deviceInState 1 InitState)) = None
   \<and> (deviceKey (deviceInState 1 InitState) AND 0xffffffff00000000) = 0
   \<and> stateAfter (callHandler maxCallDepth exampleEnv InitState
         (mkEvent RDevices REventPoll 0 1) (deviceInState 1 InitState)) StateLevel0
       = Some DeadState"
  using init_greenpower [of "deviceInState 1 InitState" exampleEnv "mkEvent RDevices REventPoll 0 1"]
  by (auto simp add: deviceInState_def exampleEnv_def stateAfter_def)

text \<open>
  Claim C6 as stated fails: \<^verbatim>\<open>StateEnter\<close> leaves a Green Power device without a node in
  the init state.
\<close>

theorem init_greenpower_stateEnter_counterexample:
  "node (deviceInState 1 InitState) = None
   \<and> DEV_GetCoreNode exampleEnv (deviceKey (deviceInState 1 InitState)) = None
   \<and> (deviceKey (deviceInState 1 InitState) AND 0xffffffff00000000) = 0
   \<and> stateAfter (callHandler maxCallDepth exampleEnv InitState
         (enterEvent StateLevel0 1) (deviceInState 1 InitState)) StateLevel0
       = Some InitState"
  by (simp add: maxCallDepth_def numeral_3_eq_3 callHandler_unfold DEV_InitStateHandler_def
        Let_def isCoordinator_def deviceInState_def exampleEnv_def stateAfter_def enterEvent_def
        del: callHandler.simps(2))

text \<open>
  Claim C7, as the code has it. The coordinator test is made only for a \<^verbatim>\<open>StateEnter\<close> whose
  device key carries the bits 0x00212E0000000000. For such an event, a device in the init
  state whose core node has network address 0 goes to the dead state without a ZDP request,
  and whatever happens to it afterwards, it stays there and no ZDP request is made.
\<close>

theorem init_coordinator:
  assumes "what event = REventStateEnter"
    and "(ev_deviceKey event AND 0x00212E0000000000) = 0x00212E0000000000"
    and "DEV_GetCoreNode env (deviceKey d) = Some p"
    and "address_nwk (nodeAt env p) = 0x0000"
    and "state d StateLevel0 = Some InitState"
    and "state d StateLevel1 = None" and "state d StateLevel2 = None"
  shows "\<exists>d'. callHandler maxCallDepth env InitState event d = Inr d'
           \<and> state d' StateLevel0 = Some DeadState
           \<and> zdpRequests d' = zdpRequests d
           \<and> (\<forall>steps d''. runSteps steps d' = Inr d'' \<longrightarrow>
                 state d'' StateLevel0 = Some DeadState \<and> zdpRequests d'' = zdpRequests d)"
proof -
  have "\<exists>d'. callHandler maxCallDepth env InitState event d = Inr d' \<and> isDead d'
          \<and> zdpRequests d' = zdpRequests d"
    using assms
    by (simp add: maxCallDepth_def numeral_3_eq_3 callHandler_unfold DEV_InitStateHandler_def
        Let_def isCoordinator_def setState_sub install_def leaveEffect_def eventNotify_def
        isDead_def zdpRequests_def
        del: callHandler.simps(2))
  then obtain d' where d': "callHandler maxCallDepth env InitState event d = Inr d'" "isDead d'"
     "zdpRequests d' = zdpRequests d" by blast
  have "\<forall>steps d''. runSteps steps d' = Inr d'' \<longrightarrow>
                 state d'' StateLevel0 = Some DeadState \<and> zdpRequests d'' = zdpRequests d"
    using dead_run[OF d'(2)] d'(3) by (auto simp: isDead_def)
  with d' show ?thesis by (auto simp: isDead_def)
qed

theorem init_coordinator_witness:
  "what (enterEvent StateLevel0 0x00212E0000000002) = REventStateEnter
   \<and> (ev_deviceKey (enterEvent StateLevel0 0x00212E0000000002) AND 0x00212E0000000000)
       = 0x00212E0000000000
   \<and> DEV_GetCoreNode coordinatorEnv (deviceKey (deviceInState 0x00212E0000000002 InitState)) = Some 0
   \<and> address_nwk (nodeAt coordinatorEnv 0) = 0x0000
   \<and> stateAfter (callHandler maxCallDepth coordinatorEnv InitState
         (enterEvent StateLevel0 0x00212E0000000002)
         (deviceInState 0x00212E0000000002 InitState)) StateLevel0 = Some DeadState
   \<and> zdpRequestsAfter (runSteps
         [(coordinatorEnv, HandleEvent (mkEvent RDevices REventAwake 0 0x00212E0000000002) StateLevel0)]
         (projr (callHandler maxCallDepth coordinatorEnv InitState
            (enterEvent StateLevel0 0x00212E0000000002)
            (deviceInState 0x00212E0000000002 InitState)))) = []"
proof -
  let ?k = "0x00212E0000000002 :: DeviceKey"
  let ?steps = "[(coordinatorEnv, HandleEvent (mkEvent RDevices REventAwake 0 ?k) StateLevel0)]"
  let ?call = "callHandler maxCallDepth coordinatorEnv InitState
         (enterEvent StateLevel0 ?k) (deviceInState ?k InitState)"
  have h1: "what (enterEvent StateLevel0 ?k) = REventStateEnter"
    by (simp add: enterEvent_def)
  have h2: "(ev_deviceKey (enterEvent StateLevel0 ?k) AND 0x00212E0000000000) = 0x00212E0000000000"
    by (simp add: enterEvent_def)
  have h3: "DEV_GetCoreNode coordinatorEnv (deviceKey (deviceInState ?k InitState)) = Some 0"
    by (simp add: coordinatorEnv_def)
  have h4: "address_nwk (nodeAt coordinatorEnv 0) = 0x0000"
    by (simp add: coordinatorEnv_def exampleEnv_def)
  have h5: "state (deviceInState ?k InitState) StateLevel0 = Some InitState"
    "state (deviceInState ?k InitState) StateLevel1 = None"
    "state (deviceInState ?k InitState) StateLevel2 = None"
    by (simp_all add: deviceInState_def)
  from init_coordinator [OF h1 h2 h3 h4 h5]
  obtain d' where d': "?call = Inr d'"
      "state d' StateLevel0 = Some DeadState"
      "\<forall>steps d''. runSteps steps d' = Inr d'' \<longrightarrow>
          state d'' StateLevel0 = Some DeadState
          \<and> zdpRequests d'' = zdpRequests (deviceInState ?k InitState)"
    by blast
  have z: "zdpRequests (deviceInState ?k InitState) = []"
    by (simp add: zdpRequests_def deviceInState_def blankDevice_def)
  have a: "stateAfter ?call StateLevel0 = Some DeadState"
    unfolding d'(1) using d'(2) by (simp add: stateAfter_def)
  have r: "zdpRequestsAfter (runSteps ?steps d') = []"
  proof (cases "runSteps ?steps d'")
    case (Inl e)
    show ?thesis unfolding Inl by (simp add: zdpRequestsAfter_def)
  next
    case (Inr d'')
    with d'(3) z have "zdpRequests d'' = []" by metis
    then show ?thesis unfolding Inr by (simp add: zdpRequestsAfter_def)
  qed
  have b: "zdpRequestsAfter (runSteps ?steps (projr ?call)) = []"
    unfolding d'(1) sum.sel by (rule r)
  from h1 h2 h3 h4 a b show ?thesis by blast
qed

text \<open>
  Claim C7 as stated fails for a key without those bits: \<^verbatim>\<open>StateEnter\<close> leaves the device
  in the init state although its node has network address 0, and after an \<^verbatim>\<open>Awake\<close> the node
  descriptor state sends a node descriptor request to address 0.
\<close>

theorem init_coordinator_counterexample:
  "DEV_GetCoreNode coordinatorEnv 0x00124B0000000001 = Some 0
   \<and> address_nwk (nodeAt coordinatorEnv 0) = 0x0000
   \<and> stateAfter (callHandler maxCallDepth coordinatorEnv InitState
         (enterEvent StateLevel0 0x00124B0000000001)
         (deviceInState 0x00124B0000000001 InitState)) StateLevel0 = Some InitState
   \<and> zdpRequestsAfter (runSteps
         [(coordinatorEnv, HandleEvent (enterEvent StateLevel0 0x00124B0000000001) StateLevel0),
          (coordinatorEnv, HandleEvent (mkEvent RDevices REventAwake 0 0x00124B0000000001) StateLevel0),
          (coordinatorEnv, HandleEvent (enterEvent StateLevel0 0x00124B0000000001) StateLevel0)]
         (deviceInState 0x00124B0000000001 InitState)) = [NodeDescriptorReq 0]"
  by (simp add: coordinatorEnv_def exampleEnv_def deviceInState_def blankDevice_def
        stateAfter_def zdpRequestsAfter_def zdpRequests_def enterEvent_def
        Device_handleEvent_def handleEvent_def levelOfNum_def
        maxCallDepth_def numeral_3_eq_3 callHandler_unfold DEV_InitStateHandler_def
        DEV_NodeDescriptorStateHandler_def
        Let_def isCoordinator_def setState_def andThen_def eventNotify_def
        reachable_def lastAwakeMs_def MinMacPollRxOn_def zdpRequest_def startStateTimer_def
        mkEvent_def emptyResult_def RDevices_def
        del: callHandler.simps(2))

subsection \<open>Changing state\<close>

text \<open>
  Claim C8. \<^verbatim>\<open>setState\<close> with the handler that is installed at the level already returns the
  device as it was: no slot, timer, item or queue changes, the outgoing handler is not
  called, and nothing is added to what the device has emitted.
\<close>

theorem setState_idempotent:
  "setState call (state d level) level d = Inr d"
  by (simp add: setState_def)

subsection \<open>The device description state\<close>

text \<open>
  Claim C9. In the device description state, \<^verbatim>\<open>DDFInitResponse\<close> with number 1 leads to the
  idle state, \<^verbatim>\<open>DDFInitResponse\<close> with any other number leads to the dead state, and after any
  other event the top level is still the device description state.
\<close>

theorem getDeviceDescription_transitions:
  "state d StateLevel0 = Some GetDeviceDescriptionState \<Longrightarrow>
   \<exists>d'. callHandler maxCallDepth env GetDeviceDescriptionState event d = Inr d'
      \<and> state d' StateLevel0 =
          (if what event = REventDDFInitResponse
           then (if num event = 1 then Some IdleState else Some DeadState)
           else Some GetDeviceDescriptionState)"
  by (simp add: maxCallDepth_def numeral_3_eq_3 DEV_GetDeviceDescriptionHandler_def
        callHandler_unfold setState_nonIdle install_def leaveEffect_def DEV_EnqueueEvent_def
        eventNotify_def del: callHandler.simps(2))

theorem getDeviceDescription_transitions_witness:
  "state (deviceInState 1 GetDeviceDescriptionState) StateLevel0 = Some GetDeviceDescriptionState
   \<and> stateAfter (callHandler maxCallDepth exampleEnv GetDeviceDescriptionState
         (mkEvent RDevices REventDDFInitResponse 1 1)
         (deviceInState 1 GetDeviceDescriptionState)) StateLevel0 = Some IdleState
   \<and> stateAfter (callHandler maxCallDepth exampleEnv GetDeviceDescriptionState
         (mkEvent RDevices REventDDFInitResponse 0 1)
         (deviceInState 1 GetDeviceDescriptionState)) StateLevel0 = Some DeadState"
  using getDeviceDescription_transitions
          [of "deviceInState 1 GetDeviceDescriptionState" exampleEnv
              "mkEvent RDevices REventDDFInitResponse 1 1"]
        getDeviceDescription_transitions
          [of "deviceInState 1 GetDeviceDescriptionState" exampleEnv
              "mkEvent RDevices REventDDFInitResponse 0 1"]
  by (auto simp add: deviceInState_def stateAfter_def)

subsection \<open>The registry\<close>

text \<open>
  Claim C10. \<^verbatim>\<open>DEV_RemoveDevice\<close> returns false for every container and key, also when the
  first device of the container has the key and is erased.
\<close>

theorem removeDevice_returns_false:
  "snd (DEV_RemoveDevice devices key) = False
   \<and> DEV_RemoveDevice (d\<lparr>deviceKey := key\<rparr> # devices) key = (devices, False)"
  by (simp add: DEV_RemoveDevice_def)

subsection \<open>The handler slots\<close>

text \<open>
  Claim C1, as the code has it. For every device, from the constructor on and after every
  step, exactly one handler is installed at level 0 and it is a top level handler; the
  slots of level 1 and 2 are either both empty or both installed, and they are installed
  only if level 0 holds the idle handler. The converse holds once the \<^verbatim>\<open>StateEnter\<close> of
  the idle state has been delivered: that delivery installs the binding idle and the poll
  idle handler.
\<close>

theorem slots_invariant:
  assumes "runFromNew env0 key steps = Inr d"
  shows "slotsOk d
    \<and> (state d StateLevel0 = Some IdleState \<longrightarrow>
         (\<exists>d'. Device_handleEvent env (enterEvent StateLevel0 (deviceKey d)) StateLevel0 d = Inr d'
            \<and> state d' StateLevel0 = Some IdleState
            \<and> state d' StateLevel1 = Some BindingState
            \<and> state d' StateLevel2 = Some PollIdleState))"
proof -
  from run_ok[OF assms, of False "\<lambda>v. None"] have ok: "slotsOk d" by (simp add: deviceOk_def)
  then have ni: "state d StateLevel1 \<noteq> Some IdleState" "state d StateLevel2 \<noteq> Some IdleState"
    by (auto dest: slotsOk_notIdle)
  have "state d StateLevel0 = Some IdleState \<Longrightarrow>
         (\<exists>d'. Device_handleEvent env (enterEvent StateLevel0 (deviceKey d)) StateLevel0 d = Inr d'
            \<and> state d' StateLevel0 = Some IdleState
            \<and> state d' StateLevel1 = Some BindingState
            \<and> state d' StateLevel2 = Some PollIdleState)"
    using ni
    by (auto simp add: Device_handleEvent_def handleEvent_def enterEvent_def levelOfNum_def
          maxCallDepth_def numeral_3_eq_3 callHandler_unfold DEV_IdleStateHandler_def
          STATE_LEVEL_BINDING_def STATE_LEVEL_POLL_def setState_sub andThen_def
        simp del: callHandler.simps(2))
  with ok show ?thesis by blast
qed

theorem slots_invariant_witness:
  "runFromNew lightEnv lightKey lightSteps = Inr (projr (runFromNew lightEnv lightKey lightSteps))
   \<and> slotsOk (projr (runFromNew lightEnv lightKey lightSteps))
   \<and> state (projr (runFromNew lightEnv lightKey lightSteps)) StateLevel0 = Some IdleState
   \<and> stateAfter (Device_handleEvent lightEnv (enterEvent StateLevel0 lightKey) StateLevel0
         (projr (runFromNew lightEnv lightKey lightSteps))) StateLevel1 = Some BindingState
   \<and> stateAfter (Device_handleEvent lightEnv (enterEvent StateLevel0 lightKey) StateLevel0
         (projr (runFromNew lightEnv lightKey lightSteps))) StateLevel2 = Some PollIdleState"
proof -
  let ?d = "projr (runFromNew lightEnv lightKey lightSteps)"
  have run: "runFromNew lightEnv lightKey lightSteps = Inr ?d"
    by (simp add: run_defs del: callHandler.simps(2))
  have idle: "state ?d StateLevel0 = Some IdleState" and key: "deviceKey ?d = lightKey"
    by (simp_all add: run_defs del: callHandler.simps(2))
  from slots_invariant[OF run, of lightEnv] idle key
  obtain d' where ok: "slotsOk ?d"
    and d': "Device_handleEvent lightEnv (enterEvent StateLevel0 lightKey) StateLevel0 ?d = Inr d'"
       "state d' StateLevel1 = Some BindingState" "state d' StateLevel2 = Some PollIdleState"
    by auto
  have a: "stateAfter (Device_handleEvent lightEnv (enterEvent StateLevel0 lightKey) StateLevel0 ?d)
        StateLevel1 = Some BindingState"
    unfolding d'(1) using d'(2) by (simp add: stateAfter_def)
  have b: "stateAfter (Device_handleEvent lightEnv (enterEvent StateLevel0 lightKey) StateLevel0 ?d)
        StateLevel2 = Some PollIdleState"
    unfolding d'(1) using d'(3) by (simp add: stateAfter_def)
  from run ok idle a b show ?thesis by blast
qed

text \<open>
  Claim C1 as stated fails between \<^verbatim>\<open>setState(DEV_IdleStateHandler)\<close> and the delivery of
  the \<^verbatim>\<open>StateEnter\<close> it emits: after the \<^verbatim>\<open>DDFInitResponse\<close> of the example run, level 0 is
  idle and both sub levels are empty.
\<close>

theorem idle_without_substates_counterexample:
  "stateAfter (runFromNew lightEnv lightKey lightSteps) StateLevel0 = Some IdleState
   \<and> stateAfter (runFromNew lightEnv lightKey lightSteps) StateLevel1 = None
   \<and> stateAfter (runFromNew lightEnv lightKey lightSteps) StateLevel2 = None"
  by (simp add: eval_defs del: callHandler.simps(2))

subsection \<open>The poll queue\<close>




text \<open>
  Claim C5, as the code has it. In every state a run from the constructor reaches (with
  one table of read functions throughout), when the poll next state handles \<^verbatim>\<open>StateEnter\<close>
  or \<^verbatim>\<open>StateTimeout\<close> with a non-empty queue whose head has no read function, the call
  returns. If the device is reachable, the queue afterwards is the queue before without
  its head, and the poll level still holds the poll next handler. If the device is not
  reachable, the whole queue is dropped and the poll level holds the poll idle handler.
  (In the reachable case the source goes on into the branch for a failed read after the
  removal; there the counter of the removed item becomes 1, which is below the limit, so
  nothing else is removed.)
\<close>

theorem pollNext_discards_unreadable:
  assumes run: "runFromNew env0 key steps = Inr d"
    and fn: "\<forall>s \<in> set steps. DA_GetReadFunction (fst s) = DA_GetReadFunction env"
    and st: "state d STATE_LEVEL_POLL = Some PollNextState"
    and ev: "what event = REventStateEnter \<or> what event = REventStateTimeout"
    and ne: "pollItems d \<noteq> []"
    and no: "DA_GetReadFunction env (readParameters (last (pollItems d))) = None"
  shows "\<exists>d'. callHandler maxCallDepth env PollNextState event d = Inr d'
           \<and> (if reachable env d
               then pollItems d' = butlast (pollItems d)
                    \<and> state d' STATE_LEVEL_POLL = Some PollNextState
               else pollItems d' = []
                    \<and> state d' STATE_LEVEL_POLL = Some PollIdleState)"
proof (cases "reachable env d")
  case True
  from run_ok[OF run, of True "DA_GetReadFunction env"] fn
  have "pollQueueOk (DA_GetReadFunction env) d" by (simp add: deviceOk_def)
  with ne have "pollItemOk (DA_GetReadFunction env) (last (pollItems d))"
    by (auto simp: pollQueueOk_def intro: list_all_last)
  from retryThroughRef_dead[OF this no]
  have "\<And>x. retryThroughRef False (last (pollItems d)) x = Inr x" .
  with st ev True ne no show ?thesis
    by (auto simp add: maxCallDepth_def numeral_3_eq_3 callHandler_unfold
          DEV_PollNextStateHandler_def Let_def emptyResult_def andThen_def
        simp del: callHandler.simps(2))
next
  case False
  with st ev show ?thesis
    by (auto simp add: maxCallDepth_def numeral_3_eq_3 callHandler_unfold
          DEV_PollNextStateHandler_def Let_def setState_sub STATE_LEVEL_POLL_def
        simp del: callHandler.simps(2))
qed

theorem pollNext_discards_unreadable_witness:
  "runFromNew twoItemEnv lightKey twoItemPollingSteps
     = Inr (projr (runFromNew twoItemEnv lightKey twoItemPollingSteps))
   \<and> state (projr (runFromNew twoItemEnv lightKey twoItemPollingSteps)) STATE_LEVEL_POLL
       = Some PollNextState
   \<and> reachable twoItemEnv (projr (runFromNew twoItemEnv lightKey twoItemPollingSteps))
   \<and> map pi_item (pollItems (projr (runFromNew twoItemEnv lightKey twoItemPollingSteps)))
       = [(0, 2), (0, 1)]
   \<and> map retry (pollItems (projr (runFromNew twoItemEnv lightKey twoItemPollingSteps))) = [0, 0]
   \<and> DA_GetReadFunction twoItemEnv (readParameters (last (pollItems
         (projr (runFromNew twoItemEnv lightKey twoItemPollingSteps))))) = None
   \<and> pollItems (projr (callHandler maxCallDepth twoItemEnv PollNextState
        (enterEvent StateLevel2 lightKey)
        (projr (runFromNew twoItemEnv lightKey twoItemPollingSteps))))
       = butlast (pollItems (projr (runFromNew twoItemEnv lightKey twoItemPollingSteps)))
   \<and> stateAfter (callHandler maxCallDepth twoItemEnv PollNextState
        (enterEvent StateLevel2 lightKey)
        (projr (runFromNew twoItemEnv lightKey twoItemPollingSteps))) STATE_LEVEL_POLL
       = Some PollNextState"
proof -
  let ?d = "projr (runFromNew twoItemEnv lightKey twoItemPollingSteps)"
  let ?e = "enterEvent StateLevel2 lightKey"
  have run: "runFromNew twoItemEnv lightKey twoItemPollingSteps = Inr ?d"
    by (simp add: run2_defs del: callHandler.simps(2))
  have fn: "\<forall>s \<in> set twoItemPollingSteps.
      DA_GetReadFunction (fst s) = DA_GetReadFunction twoItemEnv"
    by (simp add: twoItemPollingSteps_def)
  have st: "state ?d STATE_LEVEL_POLL = Some PollNextState"
    and re: "reachable twoItemEnv ?d"
    and it: "map pi_item (pollItems ?d) = [(0, 2), (0, 1)]"
    and q: "map retry (pollItems ?d) = [0, 0]"
    and no: "DA_GetReadFunction twoItemEnv (readParameters (last (pollItems ?d))) = None"
    by (simp_all add: run2_defs del: callHandler.simps(2))
  from q have ne: "pollItems ?d \<noteq> []" by auto
  have ev: "what ?e = REventStateEnter \<or> what ?e = REventStateTimeout"
    by (simp add: enterEvent_def)
  from pollNext_discards_unreadable[OF run fn st ev ne no] re
  obtain d' where d': "callHandler maxCallDepth twoItemEnv PollNextState ?e ?d = Inr d'"
     "pollItems d' = butlast (pollItems ?d)" "state d' STATE_LEVEL_POLL = Some PollNextState"
    by auto
  have a: "pollItems (projr (callHandler maxCallDepth twoItemEnv PollNextState ?e ?d))
        = butlast (pollItems ?d)"
    unfolding d'(1) using d'(2) by simp
  have b: "stateAfter (callHandler maxCallDepth twoItemEnv PollNextState ?e ?d) STATE_LEVEL_POLL
        = Some PollNextState"
    unfolding d'(1) using d'(3) by (simp add: stateAfter_def)
  from run st re it q no a b show ?thesis by blast
qed

text \<open>
  Claim C5 as stated fails when the device is not reachable: with two items queued and a
  head without read function, \<^verbatim>\<open>StateEnter\<close> removes both items and the poll level goes to
  the poll idle handler.
\<close>

theorem unreachable_head_without_read_function_counterexample:
  "runFromNew twoItemEnv lightKey twoItemUnreachableSteps
     = Inr (projr (runFromNew twoItemEnv lightKey twoItemUnreachableSteps))
   \<and> state (projr (runFromNew twoItemEnv lightKey twoItemUnreachableSteps)) STATE_LEVEL_POLL
       = Some PollNextState
   \<and> map pi_item (pollItems (projr (runFromNew twoItemEnv lightKey twoItemUnreachableSteps)))
       = [(0, 2), (0, 1)]
   \<and> DA_GetReadFunction twoItemEnv (readParameters (last (pollItems
         (projr (runFromNew twoItemEnv lightKey twoItemUnreachableSteps))))) = None
   \<and> callHandler maxCallDepth twoItemEnv PollNextState (enterEvent StateLevel2 lightKey)
        (projr (runFromNew twoItemEnv lightKey twoItemUnreachableSteps))
       = Inr (projr (callHandler maxCallDepth twoItemEnv PollNextState
                (enterEvent StateLevel2 lightKey)
                (projr (runFromNew twoItemEnv lightKey twoItemUnreachableSteps))))
   \<and> pollItems (projr (callHandler maxCallDepth twoItemEnv PollNextState
         (enterEvent StateLevel2 lightKey)
         (projr (runFromNew twoItemEnv lightKey twoItemUnreachableSteps)))) = []
   \<and> state (projr (callHandler maxCallDepth twoItemEnv PollNextState
         (enterEvent StateLevel2 lightKey)
         (projr (runFromNew twoItemEnv lightKey twoItemUnreachableSteps)))) STATE_LEVEL_POLL
       = Some PollIdleState"
  by (simp add: run2_defs del: callHandler.simps(2))

end
